theory Spec2Isabelle
  imports Main "HOL-Library.Monad_Syntax"
begin

section \<open>Data model of the Flow graph editor node\<close>

text \<open>
  The development embeds \<^verbatim>\<open>Source/FlowEditor/Private/Graph/Nodes/FlowGraphNode.cpp\<close>.
  Objects that the C++ code reaches through pointers live in three memories, one per class:
  graph nodes, runtime node instances and graph pins. A pointer is an address (a natural
  number) and a nullable pointer is an \<open>option\<close> of an address. As in the engine, an
  object that was marked as garbage can still be read; \<^verbatim>\<open>IsValid(p)\<close> is
  "\<open>p\<close> is not null and the object is not marked as garbage".
\<close>

type_synonym FName = string
type_synonym pin_ref = nat
type_synonym node_ref = nat
type_synonym inst_ref = nat

definition NAME_None :: FName where
  "NAME_None = ''None''"

datatype EEdGraphPinDirection = EGPD_Input | EGPD_Output | EGPD_MAX

datatype ESaveOrphanPinMode = SaveNone | SaveAll | SaveAllButExec

datatype EFlowAddOnAcceptResult = Undetermined | Reject | TentativeAccept

datatype EFlowPinType =
  PT_Exec | PT_Bool | PT_Int | PT_Float | PT_Name | PT_String | PT_Text | PT_Object

text \<open>\<^verbatim>\<open>FFlowPin\<close>, the pin descriptor of the runtime node.\<close>

record FFlowPin =
  PinName :: FName
  PinFriendlyName :: string
  PinToolTip :: string
  PinType :: EFlowPinType

text \<open>\<^verbatim>\<open>UEdGraphPin\<close>, the live pin of the graph node.\<close>

record UEdGraphPin =
  EdPinName :: FName
  Direction :: EEdGraphPinDirection
  EdPinType :: EFlowPinType
  EdPinFriendlyName :: string
  bAllowFriendlyName :: bool
  EdPinToolTip :: string
  DefaultValue :: string
  LinkedTo :: "pin_ref list"
  ParentPin :: "pin_ref option"
  bOrphanedPin :: bool
  bNotConnectable :: bool
  bHidden :: bool
  bSavePinIfOrphaned :: bool
  bWasTrashed :: bool

datatype EFlowNodeClass = UFlowNode_Class | UFlowNodeAddOn_Class | UFlowNodeBase_Class

text \<open>
  \<^verbatim>\<open>UFlowNodeBase\<close>, the runtime node instance. The class default object's pins and the
  results of the virtual queries (\<^verbatim>\<open>GetContextInputs\<close>, \<^verbatim>\<open>SupportsContextPins\<close>,
  \<^verbatim>\<open>CanUserAddInput\<close>, ...) are fields of the instance.
\<close>

record UFlowNodeBase =
  InstanceClass :: EFlowNodeClass
  InstanceClassName :: string
  bInstanceGarbage :: bool
  bHasFlowAsset :: bool
  NodeInputPins :: "FFlowPin list"
  NodeOutputPins :: "FFlowPin list"
  CDOInputPins :: "FFlowPin list"
  CDOOutputPins :: "FFlowPin list"
  ContextInputs :: "FFlowPin list"
  ContextOutputs :: "FFlowPin list"
  bSupportsContextPins :: bool
  bCanRefreshContextPinsOnLoad :: bool
  bCanUserAddInput :: bool
  bCanUserAddOutput :: bool
  AddOns :: "inst_ref list"

text \<open>\<^verbatim>\<open>UFlowGraph\<close>, the owning graph, as far as the node reads it.\<close>

record UFlowGraph =
  bGraphGarbage :: bool
  bIsSavingGraph :: bool
  bIsLocked :: bool
  bIsLoadingGraph :: bool
  bGraphHasFlowAsset :: bool

text \<open>\<^verbatim>\<open>UFlowGraphNode\<close>.\<close>

record UFlowGraphNode =
  NodeName :: string
  bNodeGarbage :: bool
  OwnerGraph :: "UFlowGraph option"
  NodeInstance :: "inst_ref option"
  Pins :: "pin_ref list"
  InputPins :: "pin_ref list"
  OutputPins :: "pin_ref list"
  bIsReconstructingNode :: bool
  bIsDestroyingNode :: bool
  bNeedsFullReconstruction :: bool
  bDisableOrphanPinSaving :: bool
  OrphanedPinSaveMode :: ESaveOrphanPinMode
  ParentNode :: "node_ref option"
  bIsSubNode :: bool
  SubNodes :: "node_ref option list"

text \<open>
  What the editor session does that an observer can see: the delegate
  \<^verbatim>\<open>OnReconstructNodeCompleted\<close> being executed for a node, a failed \<^verbatim>\<open>ensureMsgf\<close>, and a
  message handed to the asset's log. The text of an \<^verbatim>\<open>ensureMsgf\<close> is not modelled.
\<close>

datatype Event =
  ReconstructNodeCompleted node_ref
  | EnsureFailed string
  | LoggedError string

text \<open>
  The editor session: the three memories, the pin allocator, the globals
  \<^verbatim>\<open>GIsTransacting\<close> and \<^verbatim>\<open>UEdGraphPin::AreOrphanPinsEnabled()\<close>, the owning asset's
  \<^verbatim>\<open>TryUpdateManagedFlowPinsForNode\<close> (a collaborator: it may rewrite the runtime node it
  is given and reports whether it changed something), the runtime node's accept policy
  \<^verbatim>\<open>CheckAcceptFlowNodeAddOnChild\<close> (a collaborator as well), and the trace of events.
\<close>

record World =
  GraphNodes :: "node_ref \<Rightarrow> UFlowGraphNode"
  NodeInstances :: "inst_ref \<Rightarrow> UFlowNodeBase"
  GraphPins :: "pin_ref \<Rightarrow> UEdGraphPin"
  NextPinRef :: pin_ref
  GIsTransacting :: bool
  bOrphanPinsEnabled :: bool
  TryUpdateManagedFlowPinsForNode :: "UFlowNodeBase \<Rightarrow> bool \<times> UFlowNodeBase"
  CheckAcceptFlowNodeAddOnChild ::
    "UFlowNodeBase \<Rightarrow> inst_ref option \<Rightarrow> inst_ref list \<Rightarrow> EFlowAddOnAcceptResult"
  Trace :: "Event list"

section \<open>Validity and casts\<close>

definition IsValidInstance :: "World \<Rightarrow> inst_ref option \<Rightarrow> bool" where
  "IsValidInstance w p =
     (case p of None \<Rightarrow> False | Some i \<Rightarrow> \<not> bInstanceGarbage (NodeInstances w i))"

definition IsValidNode :: "World \<Rightarrow> node_ref option \<Rightarrow> bool" where
  "IsValidNode w p =
     (case p of None \<Rightarrow> False | Some n \<Rightarrow> \<not> bNodeGarbage (GraphNodes w n))"

definition IsValidGraph :: "UFlowGraph option \<Rightarrow> bool" where
  "IsValidGraph g = (case g of None \<Rightarrow> False | Some gr \<Rightarrow> \<not> bGraphGarbage gr)"

text \<open>\<^verbatim>\<open>Cast<UFlowNode>(p)\<close>: null for a null pointer and for an object of another class.\<close>

definition Cast_UFlowNode :: "World \<Rightarrow> inst_ref option \<Rightarrow> inst_ref option" where
  "Cast_UFlowNode w p =
     (case p of None \<Rightarrow> None
      | Some i \<Rightarrow> if InstanceClass (NodeInstances w i) = UFlowNode_Class then Some i else None)"

definition Cast_UFlowNodeAddOn :: "World \<Rightarrow> inst_ref option \<Rightarrow> inst_ref option" where
  "Cast_UFlowNodeAddOn w p =
     (case p of None \<Rightarrow> None
      | Some i \<Rightarrow> if InstanceClass (NodeInstances w i) = UFlowNodeAddOn_Class then Some i else None)"

section \<open>User-added pins\<close>

text \<open>\<^verbatim>\<open>UFlowGraphNode::CanUserAddInput\<close> and \<^verbatim>\<open>CanUserAddOutput\<close>.\<close>

definition CanUserAddInput :: "World \<Rightarrow> node_ref \<Rightarrow> bool" where
  "CanUserAddInput w n =
     (case Cast_UFlowNode w (NodeInstance (GraphNodes w n)) of
        None \<Rightarrow> False
      | Some FlowNode \<Rightarrow>
          bCanUserAddInput (NodeInstances w FlowNode)
          \<and> length (InputPins (GraphNodes w n)) < 256)"

definition CanUserAddOutput :: "World \<Rightarrow> node_ref \<Rightarrow> bool" where
  "CanUserAddOutput w n =
     (case Cast_UFlowNode w (NodeInstance (GraphNodes w n)) of
        None \<Rightarrow> False
      | Some FlowNode \<Rightarrow>
          bCanUserAddOutput (NodeInstances w FlowNode)
          \<and> length (OutputPins (GraphNodes w n)) < 256)"

section \<open>Sub-node bookkeeping\<close>

text \<open>\<^verbatim>\<open>UFlowGraphNode::IsSubNode\<close> and \<^verbatim>\<open>SetParentNodeForSubNode\<close>.\<close>

definition IsSubNode :: "UFlowGraphNode \<Rightarrow> bool" where
  "IsSubNode node = (bIsSubNode node \<or> ParentNode node \<noteq> None)"

definition SetParentNodeForSubNode :: "node_ref option \<Rightarrow> UFlowGraphNode \<Rightarrow> UFlowGraphNode" where
  "SetParentNodeForSubNode InParentNode node =
     (let node1 = (if InParentNode \<noteq> None then node\<lparr>bIsSubNode := True\<rparr> else node)
      in node1\<lparr>ParentNode := InParentNode\<rparr>)"

section \<open>Pin matching\<close>

text \<open>
  \<^verbatim>\<open>TArray::RemoveAtSwap(i)\<close> moves the last element into slot \<open>i\<close> and drops the last slot.
  \<^verbatim>\<open>FFlowPin::IsValid\<close> is declared in the runtime module: a pin is valid when its name is
  not \<^verbatim>\<open>NAME_None\<close>.
\<close>

definition RemoveAtSwap :: "nat \<Rightarrow> 'a list \<Rightarrow> 'a list" where
  "RemoveAtSwap i xs = butlast (xs[i := last xs])"

definition FlowPin_IsValid :: "FFlowPin \<Rightarrow> bool" where
  "FlowPin_IsValid p = (PinName p \<noteq> NAME_None)"

text \<open>The loop \<^verbatim>\<open>for (int i = Array.Num() - 1; i >= 0; --i)\<close> with \<open>k = i + 1\<close>.\<close>

fun CleanInvalidLoop :: "('a \<Rightarrow> bool) \<Rightarrow> nat \<Rightarrow> 'a list \<Rightarrow> 'a list" where
  "CleanInvalidLoop bad 0 xs = xs"
| "CleanInvalidLoop bad (Suc i) xs =
     CleanInvalidLoop bad i (if bad (xs ! i) then RemoveAtSwap i xs else xs)"

definition CleanInvalidPins :: "FFlowPin list \<Rightarrow> FFlowPin list" where
  "CleanInvalidPins Array = CleanInvalidLoop (\<lambda>p. \<not> FlowPin_IsValid p) (length Array) Array"

definition CleanInvalidGraphPins :: "(pin_ref \<Rightarrow> UEdGraphPin) \<Rightarrow> pin_ref list \<Rightarrow> pin_ref list" where
  "CleanInvalidGraphPins h Array = CleanInvalidLoop (\<lambda>r. bOrphanedPin (h r)) (length Array) Array"

text \<open>\<^verbatim>\<open>CheckPinsMatch(const TArray<FFlowPin>&, const TArray<FFlowPin>&)\<close>.\<close>

definition PinsAreEqualPredicate :: "FFlowPin \<Rightarrow> FFlowPin \<Rightarrow> bool" where
  "PinsAreEqualPredicate LeftPin RightPin =
     (let bNameMatch = (PinName LeftPin = PinName RightPin);
          bTypeMatch = (PinType LeftPin = PinType RightPin)
      in bNameMatch \<and> bTypeMatch)"

definition CheckPinsMatch :: "FFlowPin list \<Rightarrow> FFlowPin list \<Rightarrow> bool" where
  "CheckPinsMatch LeftPins RightPins =
     (if length LeftPins \<noteq> length RightPins then False
      else list_all (\<lambda>LeftPin. list_ex (PinsAreEqualPredicate LeftPin) RightPins) LeftPins)"

text \<open>\<^verbatim>\<open>CheckPinsMatch(const TArray<UEdGraphPin*>&, const TArray<FFlowPin>&)\<close>.\<close>

definition CheckGraphPinsMatch :: "(pin_ref \<Rightarrow> UEdGraphPin) \<Rightarrow> pin_ref list \<Rightarrow> FFlowPin list \<Rightarrow> bool" where
  "CheckGraphPinsMatch h GraphPinsArr NodePins =
     (if length GraphPinsArr \<noteq> length NodePins then False
      else list_all (\<lambda>FlowNodePin.
             list_ex (\<lambda>GraphNodePin. EdPinName (h GraphNodePin) = PinName FlowNodePin) GraphPinsArr)
           NodePins)"

text \<open>The (name, type) pairs of a descriptor sequence, for the set-equality reading.\<close>

definition PinKeys :: "FFlowPin list \<Rightarrow> (FName \<times> EFlowPinType) list" where
  "PinKeys ps = map (\<lambda>p. (PinName p, PinType p)) ps"

section \<open>Owning graph and diagnostics\<close>

text \<open>
  Functions that can abort the editor (a failed \<^verbatim>\<open>check\<close> or \<^verbatim>\<open>CastChecked\<close>, a null
  dereference) return an \<open>option\<close>: \<open>None\<close> is the abort.

  \<^verbatim>\<open>GetFlowGraph\<close> is \<^verbatim>\<open>CastChecked<UFlowGraph>(GetGraph())\<close>, which aborts on a null graph;
  \<^verbatim>\<open>GetFlowAsset\<close> reports whether the graph has a Flow Asset; \<^verbatim>\<open>LogError\<close> hands the
  message to that asset when there is one.
\<close>

definition GetFlowGraph :: "UFlowGraphNode \<Rightarrow> UFlowGraph option" where
  "GetFlowGraph node = OwnerGraph node"

definition GetFlowAsset :: "UFlowGraphNode \<Rightarrow> bool option" where
  "GetFlowAsset node = do { FlowGraph \<leftarrow> GetFlowGraph node; Some (bGraphHasFlowAsset FlowGraph) }"

definition LogError :: "string \<Rightarrow> node_ref \<Rightarrow> World \<Rightarrow> World option" where
  "LogError MessageToLog n w = do {
     FlowAsset \<leftarrow> GetFlowAsset (GraphNodes w n);
     Some (if FlowAsset then w\<lparr>Trace := Trace w @ [LoggedError MessageToLog]\<rparr> else w)
   }"

section \<open>Engine operations on pins\<close>

text \<open>
  Modelled from the spec: the engine's \<^verbatim>\<open>UEdGraphNode::CreatePin\<close>,
  \<^verbatim>\<open>UEdGraphPin::BreakAllPinLinks\<close>, \<^verbatim>\<open>UEdGraphNode::DestroyPin\<close>,
  \<^verbatim>\<open>UEdGraphPin::ShouldSavePinIfOrphaned\<close> and \<^verbatim>\<open>UEdGraphPin::MovePersistentDataFromOldPin\<close> are
  not part of the repository. A pin is created with no connection and no flag set and is
  appended to the node's pin sequence. A connection is a pair of entries, one in the
  \<^verbatim>\<open>LinkedTo\<close> of each endpoint; severing removes both. Moving the persistent data of an
  old pin onto a new one rewires the old connections onto the new pin: every pin the old
  one is linked to is appended to the new pin's \<^verbatim>\<open>LinkedTo\<close>, and the new pin enters the
  other pin's \<^verbatim>\<open>LinkedTo\<close> at the position of the old one (at the end when the old one is
  not there). The old pin keeps its entries until its links are severed.
\<close>

definition NewEdGraphPin :: "EEdGraphPinDirection \<Rightarrow> EFlowPinType \<Rightarrow> FName \<Rightarrow> UEdGraphPin" where
  "NewEdGraphPin Dir PType PName =
     \<lparr>EdPinName = PName, Direction = Dir, EdPinType = PType, EdPinFriendlyName = [],
      bAllowFriendlyName = False, EdPinToolTip = [], DefaultValue = [], LinkedTo = [],
      ParentPin = None, bOrphanedPin = False, bNotConnectable = False, bHidden = False,
      bSavePinIfOrphaned = True, bWasTrashed = False\<rparr>"

definition CreatePin ::
  "EEdGraphPinDirection \<Rightarrow> EFlowPinType \<Rightarrow> FName \<Rightarrow> node_ref \<Rightarrow> World \<Rightarrow> pin_ref \<times> World" where
  "CreatePin Dir PType PName n w =
     (let NewPin = NextPinRef w; node = GraphNodes w n
      in (NewPin,
          w\<lparr>GraphPins := (GraphPins w)(NewPin := NewEdGraphPin Dir PType PName),
            NextPinRef := Suc NewPin,
            GraphNodes := (GraphNodes w)(n := node\<lparr>Pins := Pins node @ [NewPin]\<rparr>)\<rparr>))"

definition BreakLinkTo ::
  "pin_ref \<Rightarrow> pin_ref \<Rightarrow> (pin_ref \<Rightarrow> UEdGraphPin) \<Rightarrow> (pin_ref \<Rightarrow> UEdGraphPin)" where
  "BreakLinkTo p ToPin h =
     (let h1 = h(p := (h p)\<lparr>LinkedTo := removeAll ToPin (LinkedTo (h p))\<rparr>)
      in h1(ToPin := (h1 ToPin)\<lparr>LinkedTo := removeAll p (LinkedTo (h1 ToPin))\<rparr>))"

definition BreakAllPinLinks ::
  "pin_ref \<Rightarrow> (pin_ref \<Rightarrow> UEdGraphPin) \<Rightarrow> (pin_ref \<Rightarrow> UEdGraphPin)" where
  "BreakAllPinLinks p h = fold (BreakLinkTo p) (LinkedTo (h p)) h"

definition DestroyPin ::
  "pin_ref \<Rightarrow> (pin_ref \<Rightarrow> UEdGraphPin) \<Rightarrow> (pin_ref \<Rightarrow> UEdGraphPin)" where
  "DestroyPin p h = h(p := (h p)\<lparr>bWasTrashed := True\<rparr>)"

definition ShouldSavePinIfOrphaned :: "UEdGraphPin \<Rightarrow> bool" where
  "ShouldSavePinIfOrphaned pin = bSavePinIfOrphaned pin"

fun InsertAtFind :: "pin_ref \<Rightarrow> pin_ref \<Rightarrow> pin_ref list \<Rightarrow> pin_ref list" where
  "InsertAtFind SourcePin NewPin [] = [NewPin]"
| "InsertAtFind SourcePin NewPin (x # xs) =
     (if x = SourcePin then NewPin # x # xs else x # InsertAtFind SourcePin NewPin xs)"

definition MoveLink ::
  "pin_ref \<Rightarrow> pin_ref \<Rightarrow> pin_ref \<Rightarrow> (pin_ref \<Rightarrow> UEdGraphPin) \<Rightarrow> (pin_ref \<Rightarrow> UEdGraphPin)" where
  "MoveLink NewPin SourcePin OtherPin h =
     (let h1 = h(NewPin := (h NewPin)\<lparr>LinkedTo := LinkedTo (h NewPin) @ [OtherPin]\<rparr>)
      in h1(OtherPin := (h1 OtherPin)\<lparr>LinkedTo :=
              InsertAtFind SourcePin NewPin (LinkedTo (h1 OtherPin))\<rparr>))"

definition MovePersistentDataFromOldPin ::
  "pin_ref \<Rightarrow> pin_ref \<Rightarrow> (pin_ref \<Rightarrow> UEdGraphPin) \<Rightarrow> (pin_ref \<Rightarrow> UEdGraphPin)" where
  "MovePersistentDataFromOldPin NewPin SourcePin h =
     (let h1 = h(NewPin := (h NewPin)\<lparr>DefaultValue := DefaultValue (h SourcePin)\<rparr>)
      in fold (MoveLink NewPin SourcePin) (LinkedTo (h1 SourcePin)) h1)"

section \<open>Allocating the default pins\<close>

text \<open>\<^verbatim>\<open>FFlowPin::GetPinCategoryFromPinType\<close> is a runtime table; the pin keeps the type itself.\<close>

definition CreateInputPin :: "FFlowPin \<Rightarrow> node_ref \<Rightarrow> World \<Rightarrow> World" where
  "CreateInputPin FlowPin n w =
     (if PinName FlowPin = NAME_None then w
      else
        let (NewPin, w1) = CreatePin EGPD_Input (PinType FlowPin) (PinName FlowPin) n w;
            pin = GraphPins w1 NewPin;
            pin1 = (if PinFriendlyName FlowPin \<noteq> []
                    then pin\<lparr>bAllowFriendlyName := True, EdPinFriendlyName := PinFriendlyName FlowPin\<rparr>
                    else pin);
            pin2 = pin1\<lparr>EdPinToolTip := PinToolTip FlowPin\<rparr>;
            node = GraphNodes w1 n
        in w1\<lparr>GraphPins := (GraphPins w1)(NewPin := pin2),
              GraphNodes := (GraphNodes w1)(n := node\<lparr>InputPins := InputPins node @ [NewPin]\<rparr>)\<rparr>)"

definition CreateOutputPin :: "FFlowPin \<Rightarrow> node_ref \<Rightarrow> World \<Rightarrow> World" where
  "CreateOutputPin FlowPin n w =
     (if PinName FlowPin = NAME_None then w
      else
        let (NewPin, w1) = CreatePin EGPD_Output (PinType FlowPin) (PinName FlowPin) n w;
            pin = GraphPins w1 NewPin;
            pin1 = (if PinFriendlyName FlowPin \<noteq> []
                    then pin\<lparr>bAllowFriendlyName := True, EdPinFriendlyName := PinFriendlyName FlowPin\<rparr>
                    else pin);
            pin2 = pin1\<lparr>EdPinToolTip := PinToolTip FlowPin\<rparr>;
            node = GraphNodes w1 n
        in w1\<lparr>GraphPins := (GraphPins w1)(NewPin := pin2),
              GraphNodes := (GraphNodes w1)(n := node\<lparr>OutputPins := OutputPins node @ [NewPin]\<rparr>)\<rparr>)"

definition AllocateDefaultPins :: "node_ref \<Rightarrow> World \<Rightarrow> World option" where
  "AllocateDefaultPins n w =
     (if Pins (GraphNodes w n) \<noteq> [] then None
      else
        case Cast_UFlowNode w (NodeInstance (GraphNodes w n)) of
          None \<Rightarrow> Some w
        | Some FlowNode \<Rightarrow>
            let w1 = fold (\<lambda>InputPin. CreateInputPin InputPin n) (NodeInputPins (NodeInstances w FlowNode)) w;
                w2 = fold (\<lambda>OutputPin. CreateOutputPin OutputPin n) (NodeOutputPins (NodeInstances w1 FlowNode)) w1
            in Some w2)"

section \<open>Rewiring old pins onto new pins\<close>

text \<open>
  \<^verbatim>\<open>UFlowGraphNode::ReconstructSinglePin\<close> and \<^verbatim>\<open>UFlowGraphNode::RewireOldPinsToNewPins\<close>.
  The inner loop \<^verbatim>\<open>for (NewPinCount = NumNewPins - 1; NewPinCount >= 0; --NewPinCount)\<close> is
  \<open>SearchNewPin\<close>: it returns the index at which the loop breaks with a match. The outer loop
  \<^verbatim>\<open>for (OldPinIndex = InOldPins.Num() - 1; OldPinIndex >= 0; --OldPinIndex)\<close> is \<open>RewireLoop\<close>,
  counting \<open>OldPinIndex + 1\<close> down to \<open>0\<close>.
\<close>

definition ReconstructSinglePin :: "pin_ref \<Rightarrow> pin_ref \<Rightarrow> World \<Rightarrow> World" where
  "ReconstructSinglePin NewPin OldPin w =
     w\<lparr>GraphPins := MovePersistentDataFromOldPin NewPin OldPin (GraphPins w)\<rparr>"

fun SearchNewPin ::
  "nat \<Rightarrow> nat \<Rightarrow> bool list \<Rightarrow> pin_ref list \<Rightarrow> (pin_ref \<Rightarrow> UEdGraphPin) \<Rightarrow> FName \<Rightarrow> nat option" where
  "SearchNewPin 0 NewPinIndex NewPinMatched NewPins h OldName = None"
| "SearchNewPin (Suc NewPinCount) NewPinIndex NewPinMatched NewPins h OldName =
     (if \<not> NewPinMatched ! NewPinIndex \<and> EdPinName (h (NewPins ! NewPinIndex)) = OldName
      then Some NewPinIndex
      else SearchNewPin NewPinCount ((NewPinIndex + 1) mod length NewPins) NewPinMatched NewPins h OldName)"

record RewireState =
  RW_World :: World
  InOldPins :: "pin_ref list"
  OrphanedOldPins :: "pin_ref list"
  NewPinMatched :: "bool list"
  MatchedPins :: "pin_ref \<Rightarrow> pin_ref option"

definition RemoveAt :: "nat \<Rightarrow> 'a list \<Rightarrow> 'a list" where
  "RemoveAt i xs = take i xs @ drop (Suc i) xs"

definition RewireStep :: "node_ref \<Rightarrow> nat \<Rightarrow> nat \<Rightarrow> RewireState \<Rightarrow> RewireState" where
  "RewireStep n NumNewPins OldPinIndex st =
     (let w = RW_World st;
          node = GraphNodes w n;
          OldPin = InOldPins st ! OldPinIndex;
          found = SearchNewPin NumNewPins (if NumNewPins \<noteq> 0 then OldPinIndex mod NumNewPins else 0)
                    (NewPinMatched st) (Pins node) (GraphPins w) (EdPinName (GraphPins w OldPin));
          st1 = (case found of
                   None \<Rightarrow> st
                 | Some NewPinIndex \<Rightarrow>
                     st\<lparr>RW_World := ReconstructSinglePin (Pins node ! NewPinIndex) OldPin w,
                        MatchedPins := (MatchedPins st)(OldPin \<mapsto> Pins node ! NewPinIndex),
                        NewPinMatched := (NewPinMatched st)[NewPinIndex := True]\<rparr>);
          bMatched = (found \<noteq> None);
          w1 = RW_World st1;
          pin = GraphPins w1 OldPin
      in if bOrphanPinsEnabled w1 \<and> \<not> bDisableOrphanPinSaving node
            \<and> OrphanedPinSaveMode node = SaveAll
            \<and> \<not> bMatched \<and> \<not> bHidden pin \<and> ShouldSavePinIfOrphaned pin \<and> length (LinkedTo pin) > 0
         then st1\<lparr>RW_World := w1\<lparr>GraphPins :=
                      (GraphPins w1)(OldPin := pin\<lparr>bOrphanedPin := True, bNotConnectable := True\<rparr>)\<rparr>,
                  OrphanedOldPins := OrphanedOldPins st1 @ [OldPin],
                  InOldPins := RemoveAt OldPinIndex (InOldPins st1)\<rparr>
         else st1)"

fun RewireLoop :: "node_ref \<Rightarrow> nat \<Rightarrow> nat \<Rightarrow> RewireState \<Rightarrow> RewireState" where
  "RewireLoop n NumNewPins 0 st = st"
| "RewireLoop n NumNewPins (Suc OldPinIndex) st =
     RewireLoop n NumNewPins OldPinIndex (RewireStep n NumNewPins OldPinIndex st)"

text \<open>
  The orphaned pins get placed after the rest of the new pins; the loop runs from the last
  index of \<^verbatim>\<open>OrphanedOldPins\<close> down to \<open>0\<close>.
\<close>

definition PlaceOrphanedPin :: "node_ref \<Rightarrow> pin_ref \<Rightarrow> World \<Rightarrow> World" where
  "PlaceOrphanedPin n OrphanedPin w =
     (if ParentPin (GraphPins w OrphanedPin) = None
      then
        let node = GraphNodes w n;
            node1 = node\<lparr>Pins := Pins node @ [OrphanedPin]\<rparr>;
            node2 = (case Direction (GraphPins w OrphanedPin) of
                       EGPD_Input \<Rightarrow> node1\<lparr>InputPins := InputPins node1 @ [OrphanedPin]\<rparr>
                     | EGPD_Output \<Rightarrow> node1\<lparr>OutputPins := OutputPins node1 @ [OrphanedPin]\<rparr>
                     | EGPD_MAX \<Rightarrow> node1)
        in w\<lparr>GraphNodes := (GraphNodes w)(n := node2)\<rparr>
      else w)"

definition RewireInit :: "node_ref \<Rightarrow> pin_ref list \<Rightarrow> World \<Rightarrow> RewireState" where
  "RewireInit n OldPins w =
     \<lparr>RW_World = w, InOldPins = OldPins, OrphanedOldPins = [],
      NewPinMatched = replicate (length (Pins (GraphNodes w n))) False,
      MatchedPins = Map.empty\<rparr>"

definition RewireMatch :: "node_ref \<Rightarrow> pin_ref list \<Rightarrow> World \<Rightarrow> RewireState" where
  "RewireMatch n OldPins w =
     RewireLoop n (length (Pins (GraphNodes w n))) (length OldPins) (RewireInit n OldPins w)"

definition RewireOldPinsToNewPins :: "node_ref \<Rightarrow> pin_ref list \<Rightarrow> World \<Rightarrow> World \<times> pin_ref list" where
  "RewireOldPinsToNewPins n OldPins w =
     (let st = RewireMatch n OldPins w
      in (fold (PlaceOrphanedPin n) (rev (OrphanedOldPins st)) (RW_World st), InOldPins st))"

section \<open>Reconstruction\<close>

text \<open>
  \<^verbatim>\<open>UFlowGraphNode::CanReconstructNode\<close>. Modelled from the spec: the engine's \<^verbatim>\<open>ensureMsgf\<close>
  is not part of the repository. When its condition fails it evaluates the arguments of its
  message, reports the failure once for each call site, and yields false. The report is the
  event \<open>EnsureFailed\<close>, so a site has reported when its event is in the trace.

  The message of the first \<^verbatim>\<open>ensureMsgf\<close> has the argument \<^verbatim>\<open>*GetFlowAsset()->GetName()\<close>:
  \<^verbatim>\<open>GetFlowAsset\<close> aborts on a null graph and yields null for a graph without Flow asset,
  which \<^verbatim>\<open>->GetName()\<close> then dereferences. The argument of the second one,
  \<^verbatim>\<open>*NodeInstance->GetName()\<close>, is evaluated on a valid node instance.
\<close>

definition EnsureReport :: "string \<Rightarrow> World \<Rightarrow> World" where
  "EnsureReport msg w =
     (if EnsureFailed msg \<in> set (Trace w) then w
      else w\<lparr>Trace := Trace w @ [EnsureFailed msg]\<rparr>)"

definition CanReconstructNode :: "node_ref \<Rightarrow> World \<Rightarrow> (bool \<times> World) option" where
  "CanReconstructNode n w =
     (let node = GraphNodes w n in
      if GIsTransacting w \<or> bIsReconstructingNode node \<or> bIsDestroyingNode node
      then Some (False, w)
      else if \<not> IsValidInstance w (NodeInstance node)
      then do {
        FlowAsset \<leftarrow> GetFlowAsset node;
        if FlowAsset
        then Some (False, EnsureReport ''FlowGraphNode has no NodeInstance, graph may be corrupt!'' w)
        else None
      }
      else if \<not> IsValidGraph (OwnerGraph node)
      then Some (False, EnsureReport ''FlowGraphNode has no owner graph, graph may be corrupt!'' w)
      else do {
        FlowGraph \<leftarrow> GetFlowGraph node;
        if bIsSavingGraph FlowGraph then Some (False, w)
        else if bIsLocked FlowGraph then Some (False, w)
        else Some (True, w)
      })"

text \<open>
  \<^verbatim>\<open>UFlowGraphNode::TryUpdateAutoDataPins\<close>. \<^verbatim>\<open>UFlowAsset::TryUpdateManagedFlowPinsForNode\<close>
  belongs to the runtime module and is a parameter of the world. It rewrites the data of
  the live Flow node it is handed: the object keeps its class and stays valid.
\<close>

definition TryUpdateAutoDataPins :: "node_ref \<Rightarrow> World \<Rightarrow> (bool \<times> World) option" where
  "TryUpdateAutoDataPins n w =
     (case NodeInstance (GraphNodes w n) of
        None \<Rightarrow> None
      | Some i \<Rightarrow>
          (case Cast_UFlowNode w (Some i) of
             None \<Rightarrow> Some (False, w)
           | Some FlowNodeInstance \<Rightarrow>
               if bHasFlowAsset (NodeInstances w i)
               then
                 let old = NodeInstances w FlowNodeInstance;
                     (bChanged, inst) = TryUpdateManagedFlowPinsForNode w old
                 in Some (bChanged,
                          w\<lparr>NodeInstances := (NodeInstances w)
                             (FlowNodeInstance := inst\<lparr>InstanceClass := InstanceClass old,
                                                       bInstanceGarbage := bInstanceGarbage old\<rparr>)\<rparr>)
               else Some (False, w)))"

text \<open>
  \<^verbatim>\<open>UFlowGraphNode::SupportsContextPins\<close> and \<^verbatim>\<open>UFlowGraphNode::TryUpdateNodePins\<close>.
  Modelled from the spec: \<^verbatim>\<open>UFlowNode::AddInputPins\<close> and \<^verbatim>\<open>AddOutputPins\<close> belong to the runtime
  module; on the emptied array they store the required descriptors (the stored descriptor
  sequences are replaced wholesale).
\<close>

definition SupportsContextPins :: "node_ref \<Rightarrow> World \<Rightarrow> bool" where
  "SupportsContextPins n w =
     (case NodeInstance (GraphNodes w n) of
        None \<Rightarrow> False
      | Some i \<Rightarrow> bSupportsContextPins (NodeInstances w i))"

definition TryUpdateNodePins :: "node_ref \<Rightarrow> World \<Rightarrow> (bool \<times> World) option" where
  "TryUpdateNodePins n w =
     (let node = GraphNodes w n in
      case Cast_UFlowNode w (NodeInstance node) of
        None \<Rightarrow> Some (True, w)
      | Some FlowNodeInstance \<Rightarrow>
          if \<not> IsValidInstance w (Some FlowNodeInstance) then Some (True, w)
          else do {
            FlowGraph \<leftarrow> GetFlowGraph node;
            let inst = NodeInstances w FlowNodeInstance;
            let bIsLoad = bIsLoadingGraph FlowGraph;
            let bIsAllowedToRefreshPins = (\<not> bIsLoad \<or> bCanRefreshContextPinsOnLoad inst);
            let bShouldConsiderRefreshingContextPins = (bIsAllowedToRefreshPins \<and> SupportsContextPins n w);
            let bShouldRefreshContextPins =
                  (bShouldConsiderRefreshingContextPins \<or> bNeedsFullReconstruction node);
            if \<not> bShouldRefreshContextPins then Some (False, w)
            else
              let RequiredNodeInputPins = CleanInvalidPins (CDOInputPins inst @ ContextInputs inst);
                  RequiredNodeOutputPins = CleanInvalidPins (CDOOutputPins inst @ ContextOutputs inst);
                  ExistingNodeInputPins = CleanInvalidPins (NodeInputPins inst);
                  ExistingNodeOutputPins = CleanInvalidPins (NodeOutputPins inst);
                  bInputsChanged = (\<not> CheckPinsMatch RequiredNodeInputPins ExistingNodeInputPins);
                  inst1 = (if bInputsChanged then inst\<lparr>NodeInputPins := RequiredNodeInputPins\<rparr> else inst);
                  bOutputsChanged = (\<not> CheckPinsMatch RequiredNodeOutputPins ExistingNodeOutputPins);
                  inst2 = (if bOutputsChanged then inst1\<lparr>NodeOutputPins := RequiredNodeOutputPins\<rparr> else inst1)
              in Some (bInputsChanged \<or> bOutputsChanged,
                       w\<lparr>NodeInstances := (NodeInstances w)(FlowNodeInstance := inst2)\<rparr>)
          })"

text \<open>\<^verbatim>\<open>UFlowGraphNode::CheckGraphPinsMatchNodePins\<close>.\<close>

definition CheckGraphPinsMatchNodePins :: "node_ref \<Rightarrow> World \<Rightarrow> bool" where
  "CheckGraphPinsMatchNodePins n w =
     (let node = GraphNodes w n in
      case Cast_UFlowNode w (NodeInstance node) of
        None \<Rightarrow> False
      | Some FlowNodeInstance \<Rightarrow>
          if \<not> IsValidInstance w (Some FlowNodeInstance) then False
          else
            let inst = NodeInstances w FlowNodeInstance;
                ExistingNodePins = CleanInvalidPins (NodeInputPins inst @ NodeOutputPins inst);
                AllGraphNodePins = CleanInvalidGraphPins (GraphPins w) (Pins node)
            in CheckGraphPinsMatch (GraphPins w) AllGraphNodePins ExistingNodePins)"

text \<open>
  The body of \<^verbatim>\<open>if (bGraphNodeRequiresReconstruction)\<close> in \<^verbatim>\<open>UFlowGraphNode::ReconstructNode\<close>:
  the full rebuild of the pin array. The transaction and the debugger's breakpoints belong
  to collaborators and leave no mark here.
\<close>

definition DestroyOldPin :: "pin_ref \<Rightarrow> World \<Rightarrow> World" where
  "DestroyOldPin OldPin w =
     w\<lparr>GraphPins := DestroyPin OldPin (BreakAllPinLinks OldPin (GraphPins w))\<rparr>"

definition RebuildPinArray :: "node_ref \<Rightarrow> World \<Rightarrow> World option" where
  "RebuildPinArray n w = do {
     let node = GraphNodes w n;
     let OldPins = Pins node;
     let w1 = w\<lparr>GraphNodes := (GraphNodes w)(n := node\<lparr>Pins := [], InputPins := [], OutputPins := []\<rparr>)\<rparr>;
     w2 \<leftarrow> AllocateDefaultPins n w1;
     let (w3, OldPins1) = RewireOldPinsToNewPins n OldPins w2;
     let w4 = fold DestroyOldPin OldPins1 w3;
     let node4 = GraphNodes w4 n;
     Some (w4\<lparr>GraphNodes := (GraphNodes w4)(n := node4\<lparr>bNeedsFullReconstruction := False\<rparr>)\<rparr>)
   }"

text \<open>\<^verbatim>\<open>UFlowGraphNode::ReconstructNode\<close>.\<close>

definition SetReconstructing :: "node_ref \<Rightarrow> bool \<Rightarrow> World \<Rightarrow> World" where
  "SetReconstructing n b w =
     w\<lparr>GraphNodes := (GraphNodes w)(n := (GraphNodes w n)\<lparr>bIsReconstructingNode := b\<rparr>)\<rparr>"

definition ReconstructNode :: "node_ref \<Rightarrow> World \<Rightarrow> World option" where
  "ReconstructNode n w = do {
     (bCan, w0) \<leftarrow> CanReconstructNode n w;
     if \<not> bCan then Some w0
     else do {
       let w1 = SetReconstructing n True w0;
       (bNodeDataPinsUpdated, w2) \<leftarrow> TryUpdateAutoDataPins n w1;
       (bNodeExecPinsUpdated, w3) \<leftarrow> TryUpdateNodePins n w2;
       let bAreGraphPinsMismatched = (\<not> CheckGraphPinsMatchNodePins n w3);
       let bGraphNodeRequiresReconstruction =
             (bNeedsFullReconstruction (GraphNodes w3 n) \<or> bNodeDataPinsUpdated
              \<or> bNodeExecPinsUpdated \<or> bAreGraphPinsMismatched);
       w4 \<leftarrow> (if bGraphNodeRequiresReconstruction then RebuildPinArray n w3 else Some w3);
       let w5 = w4\<lparr>Trace := Trace w4 @ [ReconstructNodeCompleted n]\<rparr>;
       Some (SetReconstructing n False w5)
     }
   }"

section \<open>The sub-node hierarchy\<close>

text \<open>
  \<^verbatim>\<open>UFlowGraphNode::IsAncestorNode\<close>: the loop \<^verbatim>\<open>while (CurParentNode)\<close> follows the parent
  pointers and need not end on a cyclic chain.
\<close>

partial_function (option) IsAncestorWalk ::
  "(node_ref \<Rightarrow> UFlowGraphNode) \<Rightarrow> node_ref \<Rightarrow> node_ref option \<Rightarrow> bool option" where
  "IsAncestorWalk nodes OtherNode CurParentNode =
     (case CurParentNode of
        None \<Rightarrow> Some False
      | Some Cur \<Rightarrow>
          if Cur = OtherNode then Some True
          else IsAncestorWalk nodes OtherNode (ParentNode (nodes Cur)))"

definition IsAncestorNode :: "World \<Rightarrow> node_ref \<Rightarrow> node_ref \<Rightarrow> bool option" where
  "IsAncestorNode w n OtherNode =
     IsAncestorWalk (GraphNodes w) OtherNode (ParentNode (GraphNodes w n))"

text \<open>
  \<^verbatim>\<open>UFlowGraphNode::CanAcceptSubNodeAsChild\<close>. \<open>OutReasonString\<close> is \<open>None\<close> for a null pointer
  and holds the caller's string otherwise; the result carries the string after the call.
  An entry of the paste set that is not a Flow graph node is \<open>None\<close>.
\<close>

fun CollectOtherAddOnsToPaste ::
  "World \<Rightarrow> inst_ref option \<Rightarrow> node_ref option list \<Rightarrow> inst_ref list \<Rightarrow> inst_ref list option" where
  "CollectOtherAddOnsToPaste w AddOnToConsider [] acc = Some acc"
| "CollectOtherAddOnsToPaste w AddOnToConsider (It # rest) acc =
     (case It of
        None \<Rightarrow> None
      | Some NodeToPaste \<Rightarrow>
          let AddOnToPaste = Cast_UFlowNodeAddOn w (NodeInstance (GraphNodes w NodeToPaste))
          in CollectOtherAddOnsToPaste w AddOnToConsider rest
               (if IsValidInstance w AddOnToPaste \<and> AddOnToPaste \<noteq> AddOnToConsider
                then acc @ [the AddOnToPaste] else acc))"

definition CanAcceptSubNodeAsChild ::
  "World \<Rightarrow> node_ref \<Rightarrow> node_ref \<Rightarrow> node_ref option list \<Rightarrow> string option
     \<Rightarrow> (bool \<times> string option) option" where
  "CanAcceptSubNodeAsChild w n OtherSubNode AllRootSubNodesToPaste OutReasonString =
     (case NodeInstance (GraphNodes w OtherSubNode) of
        None \<Rightarrow>
          Some (False, if OutReasonString \<noteq> None
                       then Some ''Editor node is missing a runtime AddOn instance''
                       else OutReasonString)
      | Some OtherFlowNodeSubNode \<Rightarrow> do {
          bAncestor \<leftarrow> IsAncestorNode w n OtherSubNode;
          if bAncestor
          then Some (False, if OutReasonString \<noteq> None
                            then Some ''Cannot be a AddOn of one of our own AddOns''
                            else OutReasonString)
          else do {
            let AddOnToConsider = Cast_UFlowNodeAddOn w (Some OtherFlowNodeSubNode);
            OtherAddOnsToPaste \<leftarrow> CollectOtherAddOnsToPaste w AddOnToConsider AllRootSubNodesToPaste [];
            ThisFlowNodeBase \<leftarrow> NodeInstance (GraphNodes w n);
            let AcceptResult = CheckAcceptFlowNodeAddOnChild w (NodeInstances w ThisFlowNodeBase)
                                 AddOnToConsider OtherAddOnsToPaste;
            if AcceptResult = TentativeAccept then Some (True, OutReasonString)
            else Some (False,
                       if OutReasonString \<noteq> None
                       then Some (InstanceClassName (NodeInstances w ThisFlowNodeBase)
                                  @ '' cannot accept AddOn type ''
                                  @ InstanceClassName (NodeInstances w OtherFlowNodeSubNode))
                       else OutReasonString)
          }
        })"

text \<open>
  \<^verbatim>\<open>UFlowGraphNode::RebuildRuntimeAddOnsFromEditorSubNodes\<close>. The function calls itself on
  every valid sub-node; the first argument bounds the depth of these calls, and \<open>None\<close> is
  also the answer when the bound is used up.
\<close>

definition AddUnique :: "'a \<Rightarrow> 'a list \<Rightarrow> 'a list" where
  "AddUnique x xs = (if x \<in> set xs then xs else xs @ [x])"

fun MirrorSubNodes :: "node_ref \<Rightarrow> inst_ref \<Rightarrow> node_ref option list \<Rightarrow> World \<Rightarrow> World option" where
  "MirrorSubNodes n i [] w = Some w"
| "MirrorSubNodes n i (SubNode # rest) w =
     (if \<not> IsValidNode w SubNode
      then do {
        w1 \<leftarrow> LogError (NodeName (GraphNodes w n) @ '': Has unexpectedly null SubNode'') n w;
        MirrorSubNodes n i rest w1
      }
      else
        let AddOnSubNodeInstance = Cast_UFlowNodeAddOn w (NodeInstance (GraphNodes w (the SubNode)))
        in if IsValidInstance w AddOnSubNodeInstance
           then
             let inst = NodeInstances w i;
                 w1 = w\<lparr>NodeInstances := (NodeInstances w)
                          (i := inst\<lparr>AddOns := AddUnique (the AddOnSubNodeInstance) (AddOns inst)\<rparr>)\<rparr>
             in MirrorSubNodes n i rest w1
           else do {
             w1 \<leftarrow> LogError (NodeName (GraphNodes w n) @ '': SubNode is missing an AddOn NodeInstance'') n w;
             MirrorSubNodes n i rest w1
           })"

definition MirrorAddOns :: "node_ref \<Rightarrow> World \<Rightarrow> World option" where
  "MirrorAddOns n w =
     (let node = GraphNodes w n in
      if IsValidInstance w (NodeInstance node)
      then
        let i = the (NodeInstance node);
            w1 = w\<lparr>NodeInstances := (NodeInstances w)(i := (NodeInstances w i)\<lparr>AddOns := []\<rparr>)\<rparr>
        in MirrorSubNodes n i (SubNodes node) w1
      else Some w)"

fun ForEachValidSubNode ::
  "(node_ref \<Rightarrow> World \<Rightarrow> World option) \<Rightarrow> node_ref option list \<Rightarrow> World \<Rightarrow> World option" where
  "ForEachValidSubNode f [] w = Some w"
| "ForEachValidSubNode f (SubNode # rest) w =
     (if IsValidNode w SubNode
      then do { w1 \<leftarrow> f (the SubNode) w; ForEachValidSubNode f rest w1 }
      else ForEachValidSubNode f rest w)"

primrec RebuildRuntimeAddOnsFromEditorSubNodes :: "nat \<Rightarrow> node_ref \<Rightarrow> World \<Rightarrow> World option" where
  "RebuildRuntimeAddOnsFromEditorSubNodes 0 n w = None"
| "RebuildRuntimeAddOnsFromEditorSubNodes (Suc depth) n w = do {
     w1 \<leftarrow> MirrorAddOns n w;
     w2 \<leftarrow> ForEachValidSubNode (RebuildRuntimeAddOnsFromEditorSubNodes depth) (SubNodes (GraphNodes w1 n)) w1;
     let NodeInst = NodeInstance (GraphNodes w2 n);
     if IsValidInstance w2 NodeInst \<and> InstanceClass (NodeInstances w2 (the NodeInst)) = UFlowNode_Class
     then ReconstructNode n w2
     else Some w2
   }"

section \<open>Scenarios\<close>

text \<open>
  Concrete editor sessions on which the theorems below are exercised. Node \<open>0\<close> is a Flow
  node placed on a valid, unlocked graph; its runtime instance is instance \<open>0\<close>. Pins of
  other nodes have references from \<open>10\<close> on, and fresh pins are allocated from \<open>20\<close> on.
\<close>

definition ExFlowPin :: "FName \<Rightarrow> FFlowPin" where
  "ExFlowPin nm = \<lparr>PinName = nm, PinFriendlyName = [], PinToolTip = [], PinType = PT_Exec\<rparr>"

definition ExPin :: "FName \<Rightarrow> EEdGraphPinDirection \<Rightarrow> pin_ref list \<Rightarrow> UEdGraphPin" where
  "ExPin nm d links = (NewEdGraphPin d PT_Exec nm)\<lparr>LinkedTo := links\<rparr>"

definition ExInstance :: "EFlowNodeClass \<Rightarrow> FFlowPin list \<Rightarrow> FFlowPin list \<Rightarrow> UFlowNodeBase" where
  "ExInstance cls ins outs =
     \<lparr>InstanceClass = cls, InstanceClassName = ''FlowNode_Example'', bInstanceGarbage = False,
      bHasFlowAsset = True, NodeInputPins = ins, NodeOutputPins = outs,
      CDOInputPins = ins, CDOOutputPins = outs, ContextInputs = [], ContextOutputs = [],
      bSupportsContextPins = False, bCanRefreshContextPinsOnLoad = False,
      bCanUserAddInput = True, bCanUserAddOutput = False, AddOns = []\<rparr>"

definition ExGraph :: UFlowGraph where
  "ExGraph = \<lparr>bGraphGarbage = False, bIsSavingGraph = False, bIsLocked = False,
              bIsLoadingGraph = False, bGraphHasFlowAsset = True\<rparr>"

definition ExNode :: "inst_ref option \<Rightarrow> pin_ref list \<Rightarrow> pin_ref list \<Rightarrow> UFlowGraphNode" where
  "ExNode inst ins outs =
     \<lparr>NodeName = ''FlowGraphNode_0'', bNodeGarbage = False, OwnerGraph = Some ExGraph,
      NodeInstance = inst, Pins = ins @ outs, InputPins = ins, OutputPins = outs,
      bIsReconstructingNode = False, bIsDestroyingNode = False,
      bNeedsFullReconstruction = False, bDisableOrphanPinSaving = False,
      OrphanedPinSaveMode = SaveAll, ParentNode = None, bIsSubNode = False, SubNodes = []\<rparr>"

definition ExWorld ::
  "(node_ref \<Rightarrow> UFlowGraphNode) \<Rightarrow> (inst_ref \<Rightarrow> UFlowNodeBase) \<Rightarrow> (pin_ref \<Rightarrow> UEdGraphPin) \<Rightarrow> World" where
  "ExWorld nodes insts pins =
     \<lparr>GraphNodes = nodes, NodeInstances = insts, GraphPins = pins, NextPinRef = 20,
      GIsTransacting = False, bOrphanPinsEnabled = True,
      TryUpdateManagedFlowPinsForNode = (\<lambda>inst. (False, inst)),
      CheckAcceptFlowNodeAddOnChild = (\<lambda>inst addon others. TentativeAccept),
      Trace = []\<rparr>"

text \<open>A node with one input pin, and the same node with \<open>256\<close> input pins.\<close>

definition CapWorld :: "nat \<Rightarrow> World" where
  "CapWorld k =
     ExWorld (\<lambda>n. ExNode (Some 0) (replicate k 0) [])
       (\<lambda>i. ExInstance UFlowNode_Class [ExFlowPin ''In''] [])
       (\<lambda>r. ExPin ''In'' EGPD_Input [])"

text \<open>
  Node \<open>1\<close> is a sub-node of node \<open>0\<close>, and node \<open>2\<close> a sub-node of node \<open>1\<close>. In
  \<open>OrphanParentWorld\<close> node \<open>0\<close> has lost its runtime instance (its class was not found).
\<close>

definition ChainNodes :: "inst_ref option \<Rightarrow> node_ref \<Rightarrow> UFlowGraphNode" where
  "ChainNodes rootInst n =
     (if n = 0 then (ExNode rootInst [] [])\<lparr>SubNodes := [Some 1]\<rparr>
      else if n = 1 then (ExNode (Some 1) [] [])\<lparr>ParentNode := Some 0, bIsSubNode := True, SubNodes := [Some 2]\<rparr>
      else (ExNode (Some 2) [] [])\<lparr>ParentNode := Some 1, bIsSubNode := True\<rparr>)"

definition ChainInstances :: "inst_ref \<Rightarrow> UFlowNodeBase" where
  "ChainInstances i =
     (if i = 0 then ExInstance UFlowNode_Class [] [] else ExInstance UFlowNodeAddOn_Class [] [])"

definition ChainWorld :: World where
  "ChainWorld = ExWorld (ChainNodes (Some 0)) ChainInstances (\<lambda>r. ExPin ''In'' EGPD_Input [])"

definition OrphanParentWorld :: World where
  "OrphanParentWorld = ExWorld (ChainNodes None) ChainInstances (\<lambda>r. ExPin ''In'' EGPD_Input [])"

section \<open>The parent chain\<close>

text \<open>
  \<open>IsAncestorOf nodes x n\<close>: node \<open>x\<close> is reached from node \<open>n\<close> by following parent
  pointers, one step or more.
\<close>

inductive IsAncestorOf :: "(node_ref \<Rightarrow> UFlowGraphNode) \<Rightarrow> node_ref \<Rightarrow> node_ref \<Rightarrow> bool"
  for nodes :: "node_ref \<Rightarrow> UFlowGraphNode" where
  parent: "ParentNode (nodes n) = Some x \<Longrightarrow> IsAncestorOf nodes x n"
| grandparent: "ParentNode (nodes n) = Some p \<Longrightarrow> IsAncestorOf nodes x p \<Longrightarrow> IsAncestorOf nodes x n"

section \<open>Vocabulary for the reconstruction properties\<close>

text \<open>
  The definitions of this section state the properties; none of them is part of the program.

  \<^item> \<open>PinsWellFormed n w\<close>: the pins of node \<open>n\<close> are distinct and allocated, and they are
    connected to allocated pins of other nodes only.
  \<^item> \<open>RequiredPins n w\<close>: the valid pin descriptors of the node instance, inputs first, as
    \<^verbatim>\<open>AllocateDefaultPins\<close> reads them; \<open>RequiredDir n w j\<close> is the direction of the \<open>j\<close>-th.
  \<^item> \<open>RebuildMatchedPins n w\<close>: the map \<^verbatim>\<open>MatchedPins\<close> at the end of the rewire loop of a
    rebuild started in \<open>w\<close>; \<open>RebuiltWorld n w\<close> is the world after the rebuild.
  \<^item> \<open>OrphanCondition w n p\<close>: the six conditions under which the rewire loop keeps an
    unmatched pin.
  \<^item> \<open>ReconstructGuard n w\<close>: a precondition of \<^verbatim>\<open>CanReconstructNode\<close> stops the call;
    \<open>GuardAborts n w\<close>: the call reaches the first \<^verbatim>\<open>ensureMsgf\<close> with an invalid node
    instance and without a Flow asset to name; \<open>GuardDiagnostics n w\<close>: what the guard
    reports.
  \<^item> \<open>Prepared n w\<close>: the world after \<^verbatim>\<open>TryUpdateAutoDataPins\<close> and \<^verbatim>\<open>TryUpdateNodePins\<close>, in
    which \<^verbatim>\<open>ReconstructNode\<close> decides whether to rebuild; \<open>RequiresReconstruction n w\<close> is
    that decision.
  \<^item> \<open>PinView n w\<close>: names and orphaned flags of the pins of node \<open>n\<close>, in order;
    \<open>UpdaterQuiescent n w\<close>: the data-pin update reports no change on the node instance.
  \<^item> \<open>SubNodeAddOn w s\<close>: the valid add-on instance of a sub-node entry, if it has one;
    \<open>ValidSubNodes w n\<close>: the sub-nodes of \<open>n\<close> that have one, as the sub-node sequence
    lists them; \<open>FirstOccurrences\<close> keeps the first occurrence of each element.
  \<^item> \<open>InstancesOwned\<close>, \<open>OnGraphs\<close>, \<open>SubNodesRanked\<close>, \<open>UpdaterKeeps\<close>: every node instance
    belongs to one graph node, every graph node lies on a graph, the sub-nodes form a
    hierarchy, and the data-pin update leaves add-on lists alone.

  The worlds \<open>BranchWorld\<close>, \<open>TransactingWorld\<close>, \<open>SubPinWorld\<close>, \<open>CrossWorld\<close>, \<open>TwinWorld\<close>,
  \<open>MirrorWorld\<close>, \<open>SilentWorld\<close>, \<open>DetachedWorld\<close> and \<open>NoAssetWorld\<close> are further scenarios.
\<close>

definition NodeSansPins :: "UFlowGraphNode \<Rightarrow> UFlowGraphNode" where
  "NodeSansPins node = node\<lparr>Pins := [], InputPins := [], OutputPins := []\<rparr>"

definition PinsOnly :: "node_ref \<Rightarrow> World \<Rightarrow> World \<Rightarrow> bool" where
  "PinsOnly n w w' \<longleftrightarrow>
     NodeInstances w' = NodeInstances w \<and> GIsTransacting w' = GIsTransacting w
     \<and> bOrphanPinsEnabled w' = bOrphanPinsEnabled w
     \<and> TryUpdateManagedFlowPinsForNode w' = TryUpdateManagedFlowPinsForNode w
     \<and> CheckAcceptFlowNodeAddOnChild w' = CheckAcceptFlowNodeAddOnChild w
     \<and> Trace w' = Trace w
     \<and> (\<forall>m. m \<noteq> n \<longrightarrow> GraphNodes w' m = GraphNodes w m)
     \<and> NodeSansPins (GraphNodes w' n) = NodeSansPins (GraphNodes w n)"

definition MakePin :: "EEdGraphPinDirection \<Rightarrow> FFlowPin \<Rightarrow> UEdGraphPin" where
  "MakePin Dir FlowPin =
     (NewEdGraphPin Dir (PinType FlowPin) (PinName FlowPin))
       \<lparr>EdPinFriendlyName := PinFriendlyName FlowPin,
        bAllowFriendlyName := (PinFriendlyName FlowPin \<noteq> []),
        EdPinToolTip := PinToolTip FlowPin\<rparr>"

definition DirOf :: "bool \<Rightarrow> EEdGraphPinDirection" where
  "DirOf bInput = (if bInput then EGPD_Input else EGPD_Output)"

definition CreateDirPin :: "bool \<Rightarrow> FFlowPin \<Rightarrow> node_ref \<Rightarrow> World \<Rightarrow> World" where
  "CreateDirPin Dir d n w =
     (if Dir then CreateInputPin d n w else CreateOutputPin d n w)"

definition ValidPins :: "FFlowPin list \<Rightarrow> FFlowPin list" where
  "ValidPins ds = filter (\<lambda>d. PinName d \<noteq> NAME_None) ds"

definition AddPinRef :: "bool \<Rightarrow> pin_ref \<Rightarrow> UFlowGraphNode \<Rightarrow> UFlowGraphNode" where
  "AddPinRef Dir r node =
     (if Dir
      then node\<lparr>Pins := Pins node @ [r], InputPins := InputPins node @ [r]\<rparr>
      else node\<lparr>Pins := Pins node @ [r], OutputPins := OutputPins node @ [r]\<rparr>)"

definition OrphanCondition :: "World \<Rightarrow> node_ref \<Rightarrow> pin_ref \<Rightarrow> bool" where
  "OrphanCondition w n p \<longleftrightarrow>
     bOrphanPinsEnabled w \<and> \<not> bDisableOrphanPinSaving (GraphNodes w n)
     \<and> OrphanedPinSaveMode (GraphNodes w n) = SaveAll
     \<and> \<not> bHidden (GraphPins w p) \<and> bSavePinIfOrphaned (GraphPins w p)
     \<and> LinkedTo (GraphPins w p) \<noteq> []"

definition RewireCtx :: "node_ref \<Rightarrow> World \<Rightarrow> pin_ref list \<Rightarrow> bool" where
  "RewireCtx n w2 Old \<longleftrightarrow>
     distinct Old \<and> distinct (Pins (GraphNodes w2 n))
     \<and> set Old \<inter> set (Pins (GraphNodes w2 n)) = {}
     \<and> (\<forall>p \<in> set Old. \<forall>t \<in> set (LinkedTo (GraphPins w2 p)).
            t \<notin> set Old \<and> t \<notin> set (Pins (GraphNodes w2 n)))
     \<and> (\<forall>q \<in> set (Pins (GraphNodes w2 n)). LinkedTo (GraphPins w2 q) = [])"

definition HeapOf :: "RewireState \<Rightarrow> pin_ref \<Rightarrow> UEdGraphPin" where
  "HeapOf st = GraphPins (RW_World st)"

definition Orphaned :: "World \<Rightarrow> node_ref \<Rightarrow> RewireState \<Rightarrow> pin_ref \<Rightarrow> bool" where
  "Orphaned w2 n st p \<longleftrightarrow> MatchedPins st p = None \<and> OrphanCondition w2 n p"

definition MarkOrphan :: "UEdGraphPin \<Rightarrow> UEdGraphPin" where
  "MarkOrphan pin = pin\<lparr>bOrphanedPin := True, bNotConnectable := True\<rparr>"

definition SansLinks :: "UEdGraphPin \<Rightarrow> UEdGraphPin" where
  "SansLinks pin = pin\<lparr>LinkedTo := [], DefaultValue := []\<rparr>"

definition InvFrame :: "node_ref \<Rightarrow> World \<Rightarrow> RewireState \<Rightarrow> bool" where
  "InvFrame n w2 st \<longleftrightarrow>
     RW_World st = w2\<lparr>GraphPins := HeapOf st\<rparr>
     \<and> length (NewPinMatched st) = length (Pins (GraphNodes w2 n))"

definition InvLists :: "node_ref \<Rightarrow> World \<Rightarrow> pin_ref list \<Rightarrow> nat \<Rightarrow> RewireState \<Rightarrow> bool" where
  "InvLists n w2 Old c st \<longleftrightarrow>
     InOldPins st = take c Old @ filter (\<lambda>p. \<not> Orphaned w2 n st p) (drop c Old)
     \<and> OrphanedOldPins st = rev (filter (Orphaned w2 n st) (drop c Old))"

definition InvMatched :: "node_ref \<Rightarrow> World \<Rightarrow> pin_ref list \<Rightarrow> nat \<Rightarrow> RewireState \<Rightarrow> bool" where
  "InvMatched n w2 Old c st \<longleftrightarrow>
     (\<forall>p q. MatchedPins st p = Some q \<longrightarrow>
        p \<in> set (drop c Old)
        \<and> (\<exists>j < length (Pins (GraphNodes w2 n)). q = Pins (GraphNodes w2 n) ! j \<and> NewPinMatched st ! j)
        \<and> LinkedTo (HeapOf st q) = LinkedTo (GraphPins w2 p)
        \<and> EdPinName (GraphPins w2 q) = EdPinName (GraphPins w2 p)
        \<and> (\<forall>t \<in> set (LinkedTo (GraphPins w2 p)). q \<in> set (LinkedTo (HeapOf st t))))"

definition InvFree :: "node_ref \<Rightarrow> World \<Rightarrow> RewireState \<Rightarrow> bool" where
  "InvFree n w2 st \<longleftrightarrow>
     (\<forall>j < length (Pins (GraphNodes w2 n)).
        \<not> NewPinMatched st ! j \<longrightarrow> LinkedTo (HeapOf st (Pins (GraphNodes w2 n) ! j)) = [])"

definition InvOld :: "node_ref \<Rightarrow> World \<Rightarrow> pin_ref list \<Rightarrow> nat \<Rightarrow> RewireState \<Rightarrow> bool" where
  "InvOld n w2 Old c st \<longleftrightarrow>
     (\<forall>p \<in> set Old. HeapOf st p =
        (if p \<in> set (drop c Old) \<and> Orphaned w2 n st p then MarkOrphan (GraphPins w2 p)
         else GraphPins w2 p))"

definition InvNew :: "node_ref \<Rightarrow> World \<Rightarrow> RewireState \<Rightarrow> bool" where
  "InvNew n w2 st \<longleftrightarrow>
     (\<forall>q \<in> set (Pins (GraphNodes w2 n)). SansLinks (HeapOf st q) = SansLinks (GraphPins w2 q))"

definition RewireInv :: "node_ref \<Rightarrow> World \<Rightarrow> pin_ref list \<Rightarrow> nat \<Rightarrow> RewireState \<Rightarrow> bool" where
  "RewireInv n w2 Old c st \<longleftrightarrow>
     InvFrame n w2 st \<and> InvLists n w2 Old c st \<and> InvMatched n w2 Old c st
     \<and> InvFree n w2 st \<and> InvOld n w2 Old c st \<and> InvNew n w2 st"

definition StepSearch :: "node_ref \<Rightarrow> nat \<Rightarrow> nat \<Rightarrow> RewireState \<Rightarrow> nat option" where
  "StepSearch n NumNewPins OldPinIndex st =
     SearchNewPin NumNewPins (if NumNewPins \<noteq> 0 then OldPinIndex mod NumNewPins else 0)
       (NewPinMatched st) (Pins (GraphNodes (RW_World st) n)) (HeapOf st)
       (EdPinName (HeapOf st (InOldPins st ! OldPinIndex)))"

definition DestroyAll :: "pin_ref list \<Rightarrow> (pin_ref \<Rightarrow> UEdGraphPin) \<Rightarrow> (pin_ref \<Rightarrow> UEdGraphPin)" where
  "DestroyAll R h = fold (\<lambda>p h. DestroyPin p (BreakAllPinLinks p h)) R h"

definition Severed :: "pin_ref list \<Rightarrow> (pin_ref \<Rightarrow> UEdGraphPin) \<Rightarrow> pin_ref \<Rightarrow> pin_ref \<Rightarrow> bool" where
  "Severed R h x y \<longleftrightarrow> y \<in> set R \<and> x \<in> set (LinkedTo (h y))"

definition PinsWellFormed :: "node_ref \<Rightarrow> World \<Rightarrow> bool" where
  "PinsWellFormed n w \<longleftrightarrow>
     distinct (Pins (GraphNodes w n))
     \<and> (\<forall>p \<in> set (Pins (GraphNodes w n)).
           p < NextPinRef w
           \<and> (\<forall>t \<in> set (LinkedTo (GraphPins w p)). t < NextPinRef w \<and> t \<notin> set (Pins (GraphNodes w n))))"

definition RequiredInputs :: "node_ref \<Rightarrow> World \<Rightarrow> FFlowPin list" where
  "RequiredInputs n w =
     (case Cast_UFlowNode w (NodeInstance (GraphNodes w n)) of
        None \<Rightarrow> []
      | Some i \<Rightarrow> ValidPins (NodeInputPins (NodeInstances w i)))"

definition RequiredOutputs :: "node_ref \<Rightarrow> World \<Rightarrow> FFlowPin list" where
  "RequiredOutputs n w =
     (case Cast_UFlowNode w (NodeInstance (GraphNodes w n)) of
        None \<Rightarrow> []
      | Some i \<Rightarrow> ValidPins (NodeOutputPins (NodeInstances w i)))"

definition RequiredPins :: "node_ref \<Rightarrow> World \<Rightarrow> FFlowPin list" where
  "RequiredPins n w = RequiredInputs n w @ RequiredOutputs n w"

definition RequiredDir :: "node_ref \<Rightarrow> World \<Rightarrow> nat \<Rightarrow> EEdGraphPinDirection" where
  "RequiredDir n w j = (if j < length (RequiredInputs n w) then EGPD_Input else EGPD_Output)"

definition ClearPins :: "node_ref \<Rightarrow> World \<Rightarrow> World" where
  "ClearPins n w =
     w\<lparr>GraphNodes := (GraphNodes w)(n := (GraphNodes w n)\<lparr>Pins := [], InputPins := [], OutputPins := []\<rparr>)\<rparr>"

definition AllocatedWorld :: "node_ref \<Rightarrow> World \<Rightarrow> World" where
  "AllocatedWorld n w =
     fold (\<lambda>d. CreateDirPin False d n) (RequiredOutputs n w)
       (fold (\<lambda>d. CreateDirPin True d n) (RequiredInputs n w) (ClearPins n w))"

definition RebuildState :: "node_ref \<Rightarrow> World \<Rightarrow> RewireState" where
  "RebuildState n w = RewireMatch n (Pins (GraphNodes w n)) (AllocatedWorld n w)"

definition RebuildMatchedPins :: "node_ref \<Rightarrow> World \<Rightarrow> pin_ref \<Rightarrow> pin_ref option" where
  "RebuildMatchedPins n w = MatchedPins (RebuildState n w)"

definition RebuiltWorld :: "node_ref \<Rightarrow> World \<Rightarrow> World" where
  "RebuiltWorld n w =
     (let st = RebuildState n w;
          w3 = fold (PlaceOrphanedPin n) (rev (OrphanedOldPins st)) (RW_World st);
          w4 = fold DestroyOldPin (InOldPins st) w3
      in w4\<lparr>GraphNodes := (GraphNodes w4)(n := (GraphNodes w4 n)\<lparr>bNeedsFullReconstruction := False\<rparr>)\<rparr>)"

definition DoneNode :: "node_ref \<Rightarrow> World \<Rightarrow> World" where
  "DoneNode n w =
     w\<lparr>GraphNodes := (GraphNodes w)(n := (GraphNodes w n)\<lparr>bNeedsFullReconstruction := False\<rparr>)\<rparr>"

definition StaysOrphan :: "node_ref \<Rightarrow> World \<Rightarrow> pin_ref \<Rightarrow> bool" where
  "StaysOrphan n w p \<longleftrightarrow> RebuildMatchedPins n w p = None \<and> OrphanCondition w n p"

definition ReconstructGuard :: "node_ref \<Rightarrow> World \<Rightarrow> bool" where
  "ReconstructGuard n w \<longleftrightarrow>
     GIsTransacting w \<or> bIsReconstructingNode (GraphNodes w n) \<or> bIsDestroyingNode (GraphNodes w n)
     \<or> \<not> IsValidInstance w (NodeInstance (GraphNodes w n))
     \<or> \<not> IsValidGraph (OwnerGraph (GraphNodes w n))
     \<or> (case OwnerGraph (GraphNodes w n) of None \<Rightarrow> False | Some g \<Rightarrow> bIsSavingGraph g \<or> bIsLocked g)"

definition GuardAborts :: "node_ref \<Rightarrow> World \<Rightarrow> bool" where
  "GuardAborts n w \<longleftrightarrow>
     \<not> (GIsTransacting w \<or> bIsReconstructingNode (GraphNodes w n) \<or> bIsDestroyingNode (GraphNodes w n))
     \<and> \<not> IsValidInstance w (NodeInstance (GraphNodes w n))
     \<and> GetFlowAsset (GraphNodes w n) \<noteq> Some True"

definition GuardDiagnostics :: "node_ref \<Rightarrow> World \<Rightarrow> Event list" where
  "GuardDiagnostics n w =
     (if GIsTransacting w \<or> bIsReconstructingNode (GraphNodes w n) \<or> bIsDestroyingNode (GraphNodes w n)
      then []
      else if \<not> IsValidInstance w (NodeInstance (GraphNodes w n))
      then (if EnsureFailed ''FlowGraphNode has no NodeInstance, graph may be corrupt!'' \<in> set (Trace w)
            then [] else [EnsureFailed ''FlowGraphNode has no NodeInstance, graph may be corrupt!''])
      else if \<not> IsValidGraph (OwnerGraph (GraphNodes w n))
      then (if EnsureFailed ''FlowGraphNode has no owner graph, graph may be corrupt!'' \<in> set (Trace w)
            then [] else [EnsureFailed ''FlowGraphNode has no owner graph, graph may be corrupt!''])
      else [])"

definition Prepared :: "node_ref \<Rightarrow> World \<Rightarrow> World" where
  "Prepared n w =
     (let w1 = SetReconstructing n True w;
          w2 = snd (the (TryUpdateAutoDataPins n w1))
      in snd (the (TryUpdateNodePins n w2)))"

definition RequiresReconstruction :: "node_ref \<Rightarrow> World \<Rightarrow> bool" where
  "RequiresReconstruction n w \<longleftrightarrow>
     (let w1 = SetReconstructing n True w;
          r2 = the (TryUpdateAutoDataPins n w1);
          r3 = the (TryUpdateNodePins n (snd r2))
      in bNeedsFullReconstruction (GraphNodes (snd r3) n) \<or> fst r2 \<or> fst r3
         \<or> \<not> CheckGraphPinsMatchNodePins n (snd r3))"

definition Finish :: "node_ref \<Rightarrow> World \<Rightarrow> World" where
  "Finish n w = SetReconstructing n False (w\<lparr>Trace := Trace w @ [ReconstructNodeCompleted n]\<rparr>)"

definition BranchPins :: "pin_ref \<Rightarrow> UEdGraphPin" where
  "BranchPins r =
     (if r = 0 then ExPin ''In'' EGPD_Input []
      else if r = 1 then ExPin ''Out'' EGPD_Output [10]
      else if r = 2 then ExPin ''True'' EGPD_Output [11]
      else if r = 3 then ExPin ''False'' EGPD_Output [12]
      else if r = 10 then ExPin ''In'' EGPD_Input [1]
      else if r = 11 then ExPin ''In'' EGPD_Input [2]
      else if r = 12 then ExPin ''In'' EGPD_Input [3]
      else ExPin ''In'' EGPD_Input [])"

definition BranchWorld :: World where
  "BranchWorld =
     ExWorld (\<lambda>n. ExNode (Some 0) [0] [1, 2, 3])
       (\<lambda>i. ExInstance UFlowNode_Class [ExFlowPin ''In''] [ExFlowPin ''Out'', ExFlowPin ''True''])
       BranchPins"

definition TransactingWorld :: World where
  "TransactingWorld = BranchWorld\<lparr>GIsTransacting := True\<rparr>"

definition SubPinWorld :: World where
  "SubPinWorld = BranchWorld\<lparr>GraphPins := BranchPins(3 := (BranchPins 3)\<lparr>ParentPin := Some 2\<rparr>)\<rparr>"

definition CrossPins :: "pin_ref \<Rightarrow> UEdGraphPin" where
  "CrossPins r =
     (if r = 0 then ExPin ''X'' EGPD_Input []
      else if r = 1 then ExPin ''A'' EGPD_Input [10]
      else if r = 2 then ExPin ''A'' EGPD_Output [11]
      else if r = 10 then ExPin ''Out'' EGPD_Output [1]
      else if r = 11 then ExPin ''In'' EGPD_Input [2]
      else ExPin ''In'' EGPD_Input [])"

definition CrossWorld :: World where
  "CrossWorld =
     ExWorld (\<lambda>n. ExNode (Some 0) [0, 1] [2])
       (\<lambda>i. ExInstance UFlowNode_Class [ExFlowPin ''A''] [ExFlowPin ''A''])
       CrossPins"

definition AutoDataInst :: "World \<Rightarrow> UFlowNodeBase \<Rightarrow> UFlowNodeBase" where
  "AutoDataInst w inst =
     (if InstanceClass inst = UFlowNode_Class \<and> bHasFlowAsset inst
      then (snd (TryUpdateManagedFlowPinsForNode w inst))
             \<lparr>InstanceClass := InstanceClass inst, bInstanceGarbage := bInstanceGarbage inst\<rparr>
      else inst)"

definition AutoDataChanged :: "World \<Rightarrow> UFlowNodeBase \<Rightarrow> bool" where
  "AutoDataChanged w inst \<longleftrightarrow>
     InstanceClass inst = UFlowNode_Class \<and> bHasFlowAsset inst
     \<and> fst (TryUpdateManagedFlowPinsForNode w inst)"

definition ShouldRefresh :: "UFlowGraph \<Rightarrow> UFlowGraphNode \<Rightarrow> UFlowNodeBase \<Rightarrow> bool" where
  "ShouldRefresh g node inst \<longleftrightarrow>
     (\<not> bIsLoadingGraph g \<or> bCanRefreshContextPinsOnLoad inst) \<and> bSupportsContextPins inst
     \<or> bNeedsFullReconstruction node"

definition InputsChanged :: "UFlowNodeBase \<Rightarrow> bool" where
  "InputsChanged inst \<longleftrightarrow>
     \<not> CheckPinsMatch (CleanInvalidPins (CDOInputPins inst @ ContextInputs inst))
          (CleanInvalidPins (NodeInputPins inst))"

definition OutputsChanged :: "UFlowNodeBase \<Rightarrow> bool" where
  "OutputsChanged inst \<longleftrightarrow>
     \<not> CheckPinsMatch (CleanInvalidPins (CDOOutputPins inst @ ContextOutputs inst))
          (CleanInvalidPins (NodeOutputPins inst))"

definition RefreshedInst :: "UFlowNodeBase \<Rightarrow> UFlowNodeBase" where
  "RefreshedInst inst =
     inst\<lparr>NodeInputPins :=
            (if InputsChanged inst then CleanInvalidPins (CDOInputPins inst @ ContextInputs inst)
             else NodeInputPins inst),
          NodeOutputPins :=
            (if OutputsChanged inst then CleanInvalidPins (CDOOutputPins inst @ ContextOutputs inst)
             else NodeOutputPins inst)\<rparr>"

definition NodePinsInst :: "UFlowGraph \<Rightarrow> UFlowGraphNode \<Rightarrow> UFlowNodeBase \<Rightarrow> UFlowNodeBase" where
  "NodePinsInst g node inst =
     (if InstanceClass inst = UFlowNode_Class \<and> \<not> bInstanceGarbage inst \<and> ShouldRefresh g node inst
      then RefreshedInst inst else inst)"

definition NodePinsChanged :: "UFlowGraph \<Rightarrow> UFlowGraphNode \<Rightarrow> UFlowNodeBase \<Rightarrow> bool" where
  "NodePinsChanged g node inst \<longleftrightarrow>
     (if InstanceClass inst = UFlowNode_Class \<and> \<not> bInstanceGarbage inst
      then ShouldRefresh g node inst \<and> (InputsChanged inst \<or> OutputsChanged inst)
      else True)"

definition SetInst :: "inst_ref \<Rightarrow> UFlowNodeBase \<Rightarrow> World \<Rightarrow> World" where
  "SetInst i inst w = w\<lparr>NodeInstances := (NodeInstances w)(i := inst)\<rparr>"

definition UpdaterKeeps :: "World \<Rightarrow> bool" where
  "UpdaterKeeps w \<longleftrightarrow>
     (\<forall>inst. AddOns (snd (TryUpdateManagedFlowPinsForNode w inst)) = AddOns inst)"

definition Skeleton :: "World \<Rightarrow> World \<Rightarrow> bool" where
  "Skeleton w w' \<longleftrightarrow>
     (\<forall>m. SubNodes (GraphNodes w' m) = SubNodes (GraphNodes w m)
         \<and> NodeInstance (GraphNodes w' m) = NodeInstance (GraphNodes w m)
         \<and> bNodeGarbage (GraphNodes w' m) = bNodeGarbage (GraphNodes w m)
         \<and> OwnerGraph (GraphNodes w' m) = OwnerGraph (GraphNodes w m)
         \<and> NodeName (GraphNodes w' m) = NodeName (GraphNodes w m))
     \<and> (\<forall>j. InstanceClass (NodeInstances w' j) = InstanceClass (NodeInstances w j)
           \<and> bInstanceGarbage (NodeInstances w' j) = bInstanceGarbage (NodeInstances w j))
     \<and> TryUpdateManagedFlowPinsForNode w' = TryUpdateManagedFlowPinsForNode w
     \<and> (\<exists>ev. Trace w' = Trace w @ ev)"

definition AddOnsKept :: "inst_ref set \<Rightarrow> World \<Rightarrow> World \<Rightarrow> bool" where
  "AddOnsKept S w w' \<longleftrightarrow>
     (\<forall>j. j \<notin> S \<longrightarrow> AddOns (NodeInstances w' j) = AddOns (NodeInstances w j))"

definition SubNodeAddOn :: "World \<Rightarrow> node_ref option \<Rightarrow> inst_ref option" where
  "SubNodeAddOn w SubNode =
     (if IsValidNode w SubNode
      then let AddOnSubNodeInstance = Cast_UFlowNodeAddOn w (NodeInstance (GraphNodes w (the SubNode)))
           in if IsValidInstance w AddOnSubNodeInstance then AddOnSubNodeInstance else None
      else None)"

definition ValidAddOns :: "World \<Rightarrow> node_ref \<Rightarrow> inst_ref list" where
  "ValidAddOns w n = List.map_filter (SubNodeAddOn w) (SubNodes (GraphNodes w n))"

definition SubNodeDiagnostic :: "World \<Rightarrow> node_ref \<Rightarrow> node_ref option \<Rightarrow> Event list" where
  "SubNodeDiagnostic w n SubNode =
     (if \<not> IsValidNode w SubNode
      then [LoggedError (NodeName (GraphNodes w n) @ '': Has unexpectedly null SubNode'')]
      else if SubNodeAddOn w SubNode = None
      then [LoggedError (NodeName (GraphNodes w n) @ '': SubNode is missing an AddOn NodeInstance'')]
      else [])"

definition SubNodeDiagnostics :: "World \<Rightarrow> node_ref \<Rightarrow> node_ref option list \<Rightarrow> Event list" where
  "SubNodeDiagnostics w n subs =
     (if GetFlowAsset (GraphNodes w n) = Some True
      then concat (map (SubNodeDiagnostic w n) subs) else [])"

definition MirrorDiagnostics :: "node_ref \<Rightarrow> World \<Rightarrow> Event list" where
  "MirrorDiagnostics n w = SubNodeDiagnostics w n (SubNodes (GraphNodes w n))"

definition MirrorNodes :: "node_ref \<Rightarrow> UFlowGraphNode" where
  "MirrorNodes n =
     (if n = 0 then (ExNode (Some 0) [] [])\<lparr>SubNodes := [Some 1, None, Some 2, Some 1]\<rparr>
      else (ExNode (Some n) [] [])\<lparr>ParentNode := Some 0, bIsSubNode := True\<rparr>)"

definition MirrorWorld :: World where
  "MirrorWorld = ExWorld MirrorNodes ChainInstances (\<lambda>r. ExPin ''In'' EGPD_Input [])"

definition PinView :: "node_ref \<Rightarrow> World \<Rightarrow> (FName \<times> bool) list" where
  "PinView n w =
     map (\<lambda>p. (EdPinName (GraphPins w p), bOrphanedPin (GraphPins w p))) (Pins (GraphNodes w n))"

definition UpdaterQuiescent :: "node_ref \<Rightarrow> World \<Rightarrow> bool" where
  "UpdaterQuiescent n w =
     (case NodeInstance (GraphNodes w n) of
        None \<Rightarrow> True
      | Some i \<Rightarrow>
          TryUpdateManagedFlowPinsForNode w (NodeInstances w i) = (False, NodeInstances w i))"

definition DetachedWorld :: World where
  "DetachedWorld =
     ExWorld (\<lambda>n. (ExNode None [0] [1])\<lparr>OwnerGraph := None\<rparr>)
       (\<lambda>i. ExInstance UFlowNode_Class [ExFlowPin ''In''] [ExFlowPin ''Out''])
       (\<lambda>r. if r = 0 then ExPin ''In'' EGPD_Input [] else ExPin ''Out'' EGPD_Output [])"

definition NoAssetWorld :: World where
  "NoAssetWorld =
     ExWorld (\<lambda>n. (ExNode None [0] [1])\<lparr>OwnerGraph := Some (ExGraph\<lparr>bGraphHasFlowAsset := False\<rparr>)\<rparr>)
       (\<lambda>i. ExInstance UFlowNode_Class [ExFlowPin ''In''] [ExFlowPin ''Out''])
       (\<lambda>r. if r = 0 then ExPin ''In'' EGPD_Input [] else ExPin ''Out'' EGPD_Output [])"

definition InvTaken :: "node_ref \<Rightarrow> World \<Rightarrow> RewireState \<Rightarrow> bool" where
  "InvTaken n w2 st \<longleftrightarrow>
     (\<forall>j < length (Pins (GraphNodes w2 n)).
        NewPinMatched st ! j \<longrightarrow> (\<exists>p. MatchedPins st p = Some (Pins (GraphNodes w2 n) ! j)))"

definition TwinPins :: "pin_ref \<Rightarrow> UEdGraphPin" where
  "TwinPins r =
     (if r = 0 then ExPin ''A'' EGPD_Input [10]
      else if r = 1 then ExPin ''A'' EGPD_Input [11]
      else if r = 10 then ExPin ''Out'' EGPD_Output [0]
      else if r = 11 then ExPin ''Out'' EGPD_Output [1]
      else ExPin ''In'' EGPD_Input [])"

definition TwinWorld :: World where
  "TwinWorld =
     ExWorld (\<lambda>n. ExNode (Some 0) [0, 1] [])
       (\<lambda>i. ExInstance UFlowNode_Class [ExFlowPin ''A''] [])
       TwinPins"

definition InstancesOwned :: "World \<Rightarrow> bool" where
  "InstancesOwned w \<longleftrightarrow>
     (\<forall>m m' j. NodeInstance (GraphNodes w m) = Some j \<longrightarrow>
                NodeInstance (GraphNodes w m') = Some j \<longrightarrow> m = m')"

definition OnGraphs :: "World \<Rightarrow> bool" where
  "OnGraphs w \<longleftrightarrow> (\<forall>m. OwnerGraph (GraphNodes w m) \<noteq> None)"

definition SubNodesRanked :: "World \<Rightarrow> (node_ref \<Rightarrow> nat) \<Rightarrow> bool" where
  "SubNodesRanked w rank \<longleftrightarrow>
     (\<forall>m s. Some s \<in> set (SubNodes (GraphNodes w m)) \<longrightarrow> \<not> bNodeGarbage (GraphNodes w s) \<longrightarrow>
             rank s < rank m)"

definition ValidSubNodes :: "World \<Rightarrow> node_ref \<Rightarrow> node_ref list" where
  "ValidSubNodes w n =
     map the (filter (\<lambda>SubNode. SubNodeAddOn w SubNode \<noteq> None) (SubNodes (GraphNodes w n)))"

definition FirstOccurrences :: "'a list \<Rightarrow> 'a list" where
  "FirstOccurrences xs = rev (remdups (rev xs))"

definition SilentWorld :: World where
  "SilentWorld =
     ExWorld (\<lambda>n. (MirrorNodes n)\<lparr>OwnerGraph := Some (ExGraph\<lparr>bGraphHasFlowAsset := False\<rparr>)\<rparr>)
       ChainInstances (\<lambda>r. ExPin ''In'' EGPD_Input [])"

section \<open>Properties of the pin matching\<close>

lemma CheckPinsMatch_iff:
  "CheckPinsMatch A B \<longleftrightarrow>
     length A = length B
     \<and> (\<forall>a \<in> set A. \<exists>b \<in> set B. PinName a = PinName b \<and> PinType a = PinType b)"
  unfolding CheckPinsMatch_def PinsAreEqualPredicate_def list_all_iff list_ex_iff Let_def
  by simp

lemma PinKeys_mem:
  "k \<in> set (PinKeys A) \<longleftrightarrow> (\<exists>a \<in> set A. k = (PinName a, PinType a))"
  unfolding PinKeys_def by auto

lemma CheckPinsMatch_keys:
  "CheckPinsMatch A B \<longleftrightarrow> length A = length B \<and> set (PinKeys A) \<subseteq> set (PinKeys B)"
proof -
  have "(\<forall>a \<in> set A. \<exists>b \<in> set B. PinName a = PinName b \<and> PinType a = PinType b)
        \<longleftrightarrow> set (PinKeys A) \<subseteq> set (PinKeys B)" (is "?L \<longleftrightarrow> ?R")
  proof
    assume l: ?L
    show ?R
    proof
      fix k assume "k \<in> set (PinKeys A)"
      then obtain a where a: "a \<in> set A" "k = (PinName a, PinType a)"
        unfolding PinKeys_mem by blast
      from l a(1) obtain b where "b \<in> set B" "PinName a = PinName b" "PinType a = PinType b"
        by blast
      with a(2) show "k \<in> set (PinKeys B)" unfolding PinKeys_mem by blast
    qed
  next
    assume r: ?R
    show ?L
    proof
      fix a assume "a \<in> set A"
      then have "(PinName a, PinType a) \<in> set (PinKeys A)" unfolding PinKeys_mem by blast
      with r have "(PinName a, PinType a) \<in> set (PinKeys B)" by blast
      then obtain b where "b \<in> set B" "(PinName a, PinType a) = (PinName b, PinType b)"
        unfolding PinKeys_mem by blast
      then show "\<exists>b \<in> set B. PinName a = PinName b \<and> PinType a = PinType b" by blast
    qed
  qed
  then show ?thesis unfolding CheckPinsMatch_iff by simp
qed

lemma CheckPinsMatch_refl: "CheckPinsMatch A A"
  unfolding CheckPinsMatch_keys by simp

lemma CheckPinsMatch_distinct:
  assumes "distinct (PinKeys A)"
  shows "CheckPinsMatch A B \<longleftrightarrow> length A = length B \<and> set (PinKeys A) = set (PinKeys B)"
proof
  assume m: "CheckPinsMatch A B"
  then have len: "length A = length B" and sub: "set (PinKeys A) \<subseteq> set (PinKeys B)"
    unfolding CheckPinsMatch_keys by simp_all
  have "card (set (PinKeys B)) \<le> length (PinKeys B)" by (rule card_length)
  also have "\<dots> = length (PinKeys A)" using len unfolding PinKeys_def by simp
  also have "\<dots> = card (set (PinKeys A))" using assms distinct_card by fastforce
  finally have "card (set (PinKeys B)) \<le> card (set (PinKeys A))" .
  then have "set (PinKeys A) = set (PinKeys B)"
    using sub card_seteq [of "set (PinKeys B)" "set (PinKeys A)"] by blast
  with len show "length A = length B \<and> set (PinKeys A) = set (PinKeys B)" by blast
next
  assume "length A = length B \<and> set (PinKeys A) = set (PinKeys B)"
  then show "CheckPinsMatch A B"
    unfolding CheckPinsMatch_keys by blast
qed

text \<open>
  Claim C6, as amended. \<open>CheckPinsMatch\<close> answers true exactly when the two descriptor
  sequences have the same length and every descriptor of the first has a counterpart of
  the same name and type in the second. When no two descriptors of the first sequence
  share name and type, this is the same as: equal lengths and equal sets of (name, type)
  pairs. The function is a pure function of its two arguments, so it has no effect on
  either sequence.
\<close>

theorem CheckPinsMatch_contract:
  "(CheckPinsMatch A B \<longleftrightarrow>
      length A = length B
      \<and> (\<forall>a \<in> set A. \<exists>b \<in> set B. PinName a = PinName b \<and> PinType a = PinType b))
   \<and> (distinct (PinKeys A) \<longrightarrow>
        (CheckPinsMatch A B \<longleftrightarrow> length A = length B \<and> set (PinKeys A) = set (PinKeys B)))"
  using CheckPinsMatch_iff [of A B] CheckPinsMatch_distinct [of A B] by blast

theorem CheckPinsMatch_contract_witness:
  "distinct (PinKeys [ExFlowPin ''Out'', ExFlowPin ''True''])
   \<and> CheckPinsMatch [ExFlowPin ''Out'', ExFlowPin ''True''] [ExFlowPin ''True'', ExFlowPin ''Out'']
   \<and> set (PinKeys [ExFlowPin ''Out'', ExFlowPin ''True''])
       = set (PinKeys [ExFlowPin ''True'', ExFlowPin ''Out''])"
  using CheckPinsMatch_contract [of "[ExFlowPin ''Out'', ExFlowPin ''True'']"
          "[ExFlowPin ''True'', ExFlowPin ''Out'']"]
  by (simp add: PinKeys_def ExFlowPin_def insert_commute)

text \<open>
  Claim C6 as stated fails when the first sequence repeats a descriptor: \<open>[Out, Out]\<close>
  matches \<open>[Out, True]\<close> although the sets differ, and the test is not symmetric.
\<close>

theorem CheckPinsMatch_not_set_equality:
  "CheckPinsMatch [ExFlowPin ''Out'', ExFlowPin ''Out''] [ExFlowPin ''Out'', ExFlowPin ''True'']
   \<and> set (PinKeys [ExFlowPin ''Out'', ExFlowPin ''Out''])
       \<noteq> set (PinKeys [ExFlowPin ''Out'', ExFlowPin ''True''])
   \<and> \<not> CheckPinsMatch [ExFlowPin ''Out'', ExFlowPin ''True''] [ExFlowPin ''Out'', ExFlowPin ''Out'']"
  by (simp add: CheckPinsMatch_def PinsAreEqualPredicate_def PinKeys_def ExFlowPin_def)

section \<open>Properties of the user-added pin checks\<close>

text \<open>
  Claim C10. \<open>CanUserAddInput\<close> is true exactly when the node instance is a Flow node that
  allows user-added inputs and the node has fewer than 256 input pins, and
  \<open>CanUserAddOutput\<close> likewise for outputs; with 256 pins or more in that direction the
  answer is always false.
\<close>

theorem CanUserAdd_cap:
  "(CanUserAddInput w n \<longleftrightarrow>
      (\<exists>i. NodeInstance (GraphNodes w n) = Some i
           \<and> InstanceClass (NodeInstances w i) = UFlowNode_Class
           \<and> bCanUserAddInput (NodeInstances w i)
           \<and> length (InputPins (GraphNodes w n)) < 256))
   \<and> (CanUserAddOutput w n \<longleftrightarrow>
      (\<exists>i. NodeInstance (GraphNodes w n) = Some i
           \<and> InstanceClass (NodeInstances w i) = UFlowNode_Class
           \<and> bCanUserAddOutput (NodeInstances w i)
           \<and> length (OutputPins (GraphNodes w n)) < 256))
   \<and> (256 \<le> length (InputPins (GraphNodes w n)) \<longrightarrow> \<not> CanUserAddInput w n)
   \<and> (256 \<le> length (OutputPins (GraphNodes w n)) \<longrightarrow> \<not> CanUserAddOutput w n)"
  by (auto simp: CanUserAddInput_def CanUserAddOutput_def Cast_UFlowNode_def split: option.splits)

theorem CanUserAdd_cap_witness:
  "CanUserAddInput (CapWorld 255) 0
   \<and> 256 \<le> length (InputPins (GraphNodes (CapWorld 256) 0))
   \<and> \<not> CanUserAddInput (CapWorld 256) 0
   \<and> \<not> CanUserAddOutput (CapWorld 255) 0"
  using CanUserAdd_cap [of "CapWorld 255" 0] CanUserAdd_cap [of "CapWorld 256" 0]
  by (simp add: CapWorld_def ExWorld_def ExNode_def ExInstance_def)

section \<open>Properties of the sub-node bookkeeping\<close>

text \<open>
  Claim C9, as amended. Once \<open>SetParentNodeForSubNode\<close> has been called with a non-null
  parent, \<open>IsSubNode\<close> stays true after any further sequence of calls of
  \<open>SetParentNodeForSubNode\<close>, with null or non-null parents.
\<close>

theorem IsSubNode_persists:
  "IsSubNode (fold SetParentNodeForSubNode InParentNodes (SetParentNodeForSubNode (Some p) node))"
proof -
  have a: "bIsSubNode nd \<Longrightarrow> bIsSubNode (fold SetParentNodeForSubNode InParentNodes nd)" for nd
    by (induction InParentNodes arbitrary: nd) (auto simp: SetParentNodeForSubNode_def Let_def)
  show ?thesis unfolding IsSubNode_def
    by (rule disjI1, rule a) (simp add: SetParentNodeForSubNode_def)
qed

theorem IsSubNode_persists_witness:
  "IsSubNode (SetParentNodeForSubNode None (SetParentNodeForSubNode (Some 0) (ExNode (Some 1) [] [])))"
  using IsSubNode_persists [of "[None]" 0 "ExNode (Some 1) [] []"] by simp

text \<open>
  Claim C9 as stated fails: a call of \<open>SetParentNodeForSubNode\<close> with a null parent stores
  the null pointer, so the parent reference of a sub-node does return to null.
\<close>

theorem ParentNode_reset_to_null:
  "ParentNode (SetParentNodeForSubNode (Some 0) (ExNode (Some 1) [] [])) \<noteq> None
   \<and> ParentNode (SetParentNodeForSubNode None
        (SetParentNodeForSubNode (Some 0) (ExNode (Some 1) [] []))) = None"
  by (simp add: SetParentNodeForSubNode_def ExNode_def)

section \<open>Properties of the acceptance check\<close>

lemma IsAncestorWalk_reaches:
  "IsAncestorOf nodes x n \<Longrightarrow> IsAncestorWalk nodes x (ParentNode (nodes n)) = Some True"
proof (induction rule: IsAncestorOf.induct)
  case (parent n x)
  then show ?case by (subst IsAncestorWalk.simps) simp
next
  case (grandparent n p x)
  then show ?case by (subst IsAncestorWalk.simps) simp
qed

lemma IsAncestorNode_ancestor:
  "IsAncestorOf (GraphNodes w) x n \<Longrightarrow> IsAncestorNode w n x = Some True"
  unfolding IsAncestorNode_def by (rule IsAncestorWalk_reaches)

lemma Chain_ancestor: "IsAncestorOf (GraphNodes ChainWorld) 0 2"
proof -
  have a: "IsAncestorOf (GraphNodes ChainWorld) 0 1"
    by (rule IsAncestorOf.parent) (simp add: ChainWorld_def ExWorld_def ChainNodes_def ExNode_def)
  show ?thesis
    by (rule IsAncestorOf.grandparent [OF _ a])
       (simp add: ChainWorld_def ExWorld_def ChainNodes_def ExNode_def)
qed

lemma OrphanParent_ancestor: "IsAncestorOf (GraphNodes OrphanParentWorld) 0 1"
  by (rule IsAncestorOf.parent)
     (simp add: OrphanParentWorld_def ExWorld_def ChainNodes_def ExNode_def)

text \<open>
  Claim C8, as amended. When \<open>x\<close> is an ancestor of \<open>n\<close> in the parent chain,
  \<open>CanAcceptSubNodeAsChild\<close> called on \<open>n\<close> with candidate \<open>x\<close> returns (the walk up the
  chain ends) and answers false. The reason, written when the caller passed a string to
  receive it, is the cycle rejection when \<open>x\<close> has a runtime instance and the
  missing-instance rejection when it has none.
\<close>

theorem CanAcceptSubNodeAsChild_rejects_ancestor:
  assumes "IsAncestorOf (GraphNodes w) x n"
  shows "CanAcceptSubNodeAsChild w n x AllRootSubNodesToPaste OutReasonString =
           Some (False,
                 if OutReasonString = None then None
                 else if NodeInstance (GraphNodes w x) = None
                      then Some ''Editor node is missing a runtime AddOn instance''
                      else Some ''Cannot be a AddOn of one of our own AddOns'')"
  using IsAncestorNode_ancestor [OF assms]
  by (simp add: CanAcceptSubNodeAsChild_def split: option.splits)

theorem CanAcceptSubNodeAsChild_rejects_ancestor_witness:
  "CanAcceptSubNodeAsChild ChainWorld 2 0 [] (Some []) =
     Some (False, Some ''Cannot be a AddOn of one of our own AddOns'')"
  using CanAcceptSubNodeAsChild_rejects_ancestor [OF Chain_ancestor, of "[]" "Some []"]
  by (simp add: ChainWorld_def ExWorld_def ChainNodes_def ExNode_def)

text \<open>
  Claim C8 as stated fails in the reason it promises: node \<open>0\<close> is the parent of node \<open>1\<close>
  and has no runtime instance; the answer is false, with the missing-instance reason.
\<close>

theorem CanAcceptSubNodeAsChild_other_reason:
  "IsAncestorOf (GraphNodes OrphanParentWorld) 0 1
   \<and> CanAcceptSubNodeAsChild OrphanParentWorld 1 0 [] (Some []) =
       Some (False, Some ''Editor node is missing a runtime AddOn instance'')"
  using OrphanParent_ancestor
  by (simp add: CanAcceptSubNodeAsChild_def OrphanParentWorld_def ExWorld_def ChainNodes_def ExNode_def)

section \<open>Properties of the reconstruction\<close>

lemma NodeSansPins_eq_iff:
  "NodeSansPins a = NodeSansPins b \<longleftrightarrow>
     NodeName a = NodeName b \<and> bNodeGarbage a = bNodeGarbage b \<and> OwnerGraph a = OwnerGraph b
     \<and> NodeInstance a = NodeInstance b
     \<and> bIsReconstructingNode a = bIsReconstructingNode b \<and> bIsDestroyingNode a = bIsDestroyingNode b
     \<and> bNeedsFullReconstruction a = bNeedsFullReconstruction b
     \<and> bDisableOrphanPinSaving a = bDisableOrphanPinSaving b
     \<and> OrphanedPinSaveMode a = OrphanedPinSaveMode b \<and> ParentNode a = ParentNode b
     \<and> bIsSubNode a = bIsSubNode b \<and> SubNodes a = SubNodes b"
  by (cases a; cases b) (auto simp: NodeSansPins_def)

lemma PinsOnly_refl: "PinsOnly n w w"
  by (simp add: PinsOnly_def)

lemma PinsOnly_trans: "PinsOnly n w w1 \<Longrightarrow> PinsOnly n w1 w2 \<Longrightarrow> PinsOnly n w w2"
  by (simp add: PinsOnly_def)

lemma CreateInputPin_invalid:
  "PinName d = NAME_None \<Longrightarrow> CreateInputPin d n w = w"
  by (simp add: CreateInputPin_def)

lemma CreateOutputPin_invalid:
  "PinName d = NAME_None \<Longrightarrow> CreateOutputPin d n w = w"
  by (simp add: CreateOutputPin_def)

lemma CreateInputPin_valid:
  "PinName d \<noteq> NAME_None \<Longrightarrow>
   CreateInputPin d n w =
     w\<lparr>GraphPins := (GraphPins w)(NextPinRef w := MakePin EGPD_Input d),
       NextPinRef := Suc (NextPinRef w),
       GraphNodes := (GraphNodes w)(n := (GraphNodes w n)
          \<lparr>Pins := Pins (GraphNodes w n) @ [NextPinRef w],
           InputPins := InputPins (GraphNodes w n) @ [NextPinRef w]\<rparr>)\<rparr>"
  by (simp add: CreateInputPin_def CreatePin_def Let_def MakePin_def NewEdGraphPin_def)

lemma CreateOutputPin_valid:
  "PinName d \<noteq> NAME_None \<Longrightarrow>
   CreateOutputPin d n w =
     w\<lparr>GraphPins := (GraphPins w)(NextPinRef w := MakePin EGPD_Output d),
       NextPinRef := Suc (NextPinRef w),
       GraphNodes := (GraphNodes w)(n := (GraphNodes w n)
          \<lparr>Pins := Pins (GraphNodes w n) @ [NextPinRef w],
           OutputPins := OutputPins (GraphNodes w n) @ [NextPinRef w]\<rparr>)\<rparr>"
  by (simp add: CreateOutputPin_def CreatePin_def Let_def MakePin_def NewEdGraphPin_def)

text \<open>Allocation of a list of descriptors in one direction.\<close>

lemma CreateDirPin_invalid: "PinName d = NAME_None \<Longrightarrow> CreateDirPin Dir d n w = w"
  by (simp add: CreateDirPin_def CreateInputPin_invalid CreateOutputPin_invalid)

lemma CreateDirPin_valid:
  "PinName d \<noteq> NAME_None \<Longrightarrow>
   CreateDirPin Dir d n w =
     w\<lparr>GraphPins := (GraphPins w)(NextPinRef w := MakePin (DirOf Dir) d),
       NextPinRef := Suc (NextPinRef w),
       GraphNodes := (GraphNodes w)(n := AddPinRef Dir (NextPinRef w) (GraphNodes w n))\<rparr>"
  by (cases Dir) (simp_all add: CreateDirPin_def CreateInputPin_valid CreateOutputPin_valid AddPinRef_def DirOf_def)

lemma AddPinRef_simps [simp]:
  "Pins (AddPinRef Dir r node) = Pins node @ [r]"
  "NodeSansPins (AddPinRef Dir r node) = NodeSansPins node"
  by (simp_all add: AddPinRef_def NodeSansPins_def)

lemma CreateDirPin_PinsOnly: "PinsOnly n w (CreateDirPin Dir d n w)"
  by (cases "PinName d = NAME_None")
     (simp_all add: CreateDirPin_invalid CreateDirPin_valid PinsOnly_def)

lemma fold_CreateDirPin_PinsOnly:
  "PinsOnly n w (fold (\<lambda>d. CreateDirPin Dir d n) ds w)"
proof (induction ds arbitrary: w)
  case Nil
  show ?case by (simp add: PinsOnly_refl)
next
  case (Cons d ds)
  show ?case
    using PinsOnly_trans [OF CreateDirPin_PinsOnly Cons.IH] by simp
qed

lemma fold_CreateDirPin_next:
  "NextPinRef (fold (\<lambda>d. CreateDirPin Dir d n) ds w) = NextPinRef w + length (ValidPins ds)"
proof (induction ds arbitrary: w)
  case Nil
  show ?case by (simp add: ValidPins_def)
next
  case (Cons d ds)
  show ?case
    by (cases "PinName d = NAME_None")
       (simp_all add: Cons.IH ValidPins_def CreateDirPin_invalid CreateDirPin_valid)
qed

lemma fold_CreateDirPin_Pins:
  "Pins (GraphNodes (fold (\<lambda>d. CreateDirPin Dir d n) ds w) n) =
     Pins (GraphNodes w n) @ [NextPinRef w ..< NextPinRef w + length (ValidPins ds)]"
proof (induction ds arbitrary: w)
  case Nil
  show ?case by (simp add: ValidPins_def)
next
  case (Cons d ds)
  show ?case
    by (cases "PinName d = NAME_None")
       (simp_all add: Cons.IH ValidPins_def CreateDirPin_invalid CreateDirPin_valid upt_rec)
qed

lemma fold_CreateDirPin_old:
  "r < NextPinRef w \<Longrightarrow> GraphPins (fold (\<lambda>d. CreateDirPin Dir d n) ds w) r = GraphPins w r"
proof (induction ds arbitrary: w)
  case Nil
  show ?case by simp
next
  case (Cons d ds)
  show ?case using Cons.prems
    by (cases "PinName d = NAME_None")
       (simp_all add: Cons.IH CreateDirPin_invalid CreateDirPin_valid)
qed

lemma fold_CreateDirPin_new:
  "j < length (ValidPins ds) \<Longrightarrow>
     GraphPins (fold (\<lambda>d. CreateDirPin Dir d n) ds w) (NextPinRef w + j) = MakePin (DirOf Dir) (ValidPins ds ! j)"
proof (induction ds arbitrary: w j)
  case Nil
  then show ?case by (simp add: ValidPins_def)
next
  case (Cons d ds)
  show ?case
  proof (cases "PinName d = NAME_None")
    case True
    then show ?thesis using Cons.prems Cons.IH [of j w]
      by (simp add: ValidPins_def CreateDirPin_invalid)
  next
    case False
    let ?w1 = "CreateDirPin Dir d n w"
    have nx: "NextPinRef ?w1 = Suc (NextPinRef w)"
      using False by (simp add: CreateDirPin_valid)
    have at: "GraphPins ?w1 (NextPinRef w) = MakePin (DirOf Dir) d"
      using False by (simp add: CreateDirPin_valid)
    have v: "ValidPins (d # ds) = d # ValidPins ds" using False by (simp add: ValidPins_def)
    show ?thesis
    proof (cases j)
      case 0
      have "GraphPins (fold (\<lambda>d. CreateDirPin Dir d n) ds ?w1) (NextPinRef w) = GraphPins ?w1 (NextPinRef w)"
        by (rule fold_CreateDirPin_old) (simp add: nx)
      then show ?thesis using 0 at v by simp
    next
      case (Suc k)
      then have "k < length (ValidPins ds)" using Cons.prems v by simp
      from Cons.IH [OF this, of ?w1] show ?thesis using Suc nx v by simp
    qed
  qed
qed

subsection \<open>Moving and severing links\<close>

lemma fold_MoveLink_other:
  "r \<noteq> q \<Longrightarrow> r \<notin> set L \<Longrightarrow> fold (MoveLink q p) L h r = h r"
  by (induction L arbitrary: h) (auto simp: MoveLink_def Let_def)

lemma fold_MoveLink_new:
  "q \<notin> set L \<Longrightarrow> fold (MoveLink q p) L h q = (h q)\<lparr>LinkedTo := LinkedTo (h q) @ L\<rparr>"
  by (induction L arbitrary: h) (auto simp: MoveLink_def Let_def)

lemma InsertAtFind_set: "set (InsertAtFind p q xs) = insert q (set xs)"
  by (induction xs) auto

lemma fold_MoveLink_grows:
  "t \<noteq> q \<Longrightarrow> set (LinkedTo (h t)) \<subseteq> set (LinkedTo (fold (MoveLink q p) L h t))"
proof (induction L arbitrary: h)
  case Nil
  show ?case by simp
next
  case (Cons a L)
  have "set (LinkedTo (h t)) \<subseteq> set (LinkedTo (MoveLink q p a h t))"
    using Cons.prems by (auto simp: MoveLink_def Let_def InsertAtFind_set)
  also have "\<dots> \<subseteq> set (LinkedTo (fold (MoveLink q p) L (MoveLink q p a h) t))"
    by (rule Cons.IH [OF Cons.prems])
  finally show ?case by simp
qed

lemma fold_MoveLink_inserted:
  "t \<in> set L \<Longrightarrow> t \<noteq> q \<Longrightarrow> q \<in> set (LinkedTo (fold (MoveLink q p) L h t))"
proof (induction L arbitrary: h)
  case Nil
  then show ?case by simp
next
  case (Cons a L)
  show ?case
  proof (cases "a = t")
    case True
    have "q \<in> set (LinkedTo (MoveLink q p a h t))"
      using True Cons.prems by (simp add: MoveLink_def Let_def InsertAtFind_set)
    then show ?thesis
      using fold_MoveLink_grows [OF Cons.prems(2), where h = "MoveLink q p a h" and p = p and L = L] by auto
  next
    case False
    then have "t \<in> set L" using Cons.prems by simp
    from Cons.IH [OF this Cons.prems(2)] show ?thesis by simp
  qed
qed

lemma Move_other:
  "r \<noteq> q \<Longrightarrow> q \<noteq> p \<Longrightarrow> r \<notin> set (LinkedTo (h p)) \<Longrightarrow>
     MovePersistentDataFromOldPin q p h r = h r"
  by (simp add: MovePersistentDataFromOldPin_def Let_def fold_MoveLink_other)

lemma Move_new:
  "q \<noteq> p \<Longrightarrow> q \<notin> set (LinkedTo (h p)) \<Longrightarrow>
     MovePersistentDataFromOldPin q p h q =
       (h q)\<lparr>DefaultValue := DefaultValue (h p), LinkedTo := LinkedTo (h q) @ LinkedTo (h p)\<rparr>"
  by (simp add: MovePersistentDataFromOldPin_def Let_def fold_MoveLink_new)

lemma Move_grows:
  "t \<noteq> q \<Longrightarrow> q \<noteq> p \<Longrightarrow>
     set (LinkedTo (h t)) \<subseteq> set (LinkedTo (MovePersistentDataFromOldPin q p h t))"
  using fold_MoveLink_grows [where t = t and q = q and p = p and L = "LinkedTo (h p)"
          and h = "h(q := (h q)\<lparr>DefaultValue := DefaultValue (h p)\<rparr>)"]
  by (simp add: MovePersistentDataFromOldPin_def Let_def)

lemma Move_inserted:
  "t \<in> set (LinkedTo (h p)) \<Longrightarrow> t \<noteq> q \<Longrightarrow> q \<noteq> p \<Longrightarrow>
     q \<in> set (LinkedTo (MovePersistentDataFromOldPin q p h t))"
  using fold_MoveLink_inserted [where t = t and q = q and p = p and L = "LinkedTo (h p)"
          and h = "h(q := (h q)\<lparr>DefaultValue := DefaultValue (h p)\<rparr>)"]
  by (simp add: MovePersistentDataFromOldPin_def Let_def)

lemma filter_notin_self: "filter (\<lambda>x. x \<notin> set xs) xs = []"
  by (simp add: filter_empty_conv)

lemma filter_removeAll_notin:
  "filter (\<lambda>x. x \<notin> set L) (removeAll a xs) = filter (\<lambda>x. x \<notin> set (a # L)) xs"
  by (induction xs) auto

lemma BreakLinkTo_eq:
  "BreakLinkTo p a h =
     (\<lambda>r. if r = p then (h p)\<lparr>LinkedTo := removeAll a (LinkedTo (h p))\<rparr>
          else if r = a then (h a)\<lparr>LinkedTo := removeAll p (LinkedTo (h a))\<rparr>
          else h r)"
  by (rule ext) (auto simp: BreakLinkTo_def Let_def)

lemma fold_BreakLinkTo_eq:
  "fold (BreakLinkTo p) L h =
     (\<lambda>r. if r = p then (h p)\<lparr>LinkedTo := filter (\<lambda>x. x \<notin> set L) (LinkedTo (h p))\<rparr>
          else if r \<in> set L then (h r)\<lparr>LinkedTo := removeAll p (LinkedTo (h r))\<rparr>
          else h r)"
proof (induction L arbitrary: h)
  case Nil
  show ?case by (rule ext) simp
next
  case (Cons a L)
  have "fold (BreakLinkTo p) (a # L) h = fold (BreakLinkTo p) L (BreakLinkTo p a h)"
    by simp
  also have "\<dots> =
     (\<lambda>r. if r = p then (BreakLinkTo p a h p)\<lparr>LinkedTo := filter (\<lambda>x. x \<notin> set L) (LinkedTo (BreakLinkTo p a h p))\<rparr>
          else if r \<in> set L then (BreakLinkTo p a h r)\<lparr>LinkedTo := removeAll p (LinkedTo (BreakLinkTo p a h r))\<rparr>
          else BreakLinkTo p a h r)"
    by (rule Cons.IH)
  also have "\<dots> =
     (\<lambda>r. if r = p then (h p)\<lparr>LinkedTo := filter (\<lambda>x. x \<notin> set (a # L)) (LinkedTo (h p))\<rparr>
          else if r \<in> set (a # L) then (h r)\<lparr>LinkedTo := removeAll p (LinkedTo (h r))\<rparr>
          else h r)"
  proof (rule ext)
    fix r
    show "(if r = p then (BreakLinkTo p a h p)\<lparr>LinkedTo := filter (\<lambda>x. x \<notin> set L) (LinkedTo (BreakLinkTo p a h p))\<rparr>
          else if r \<in> set L then (BreakLinkTo p a h r)\<lparr>LinkedTo := removeAll p (LinkedTo (BreakLinkTo p a h r))\<rparr>
          else BreakLinkTo p a h r) =
          (if r = p then (h p)\<lparr>LinkedTo := filter (\<lambda>x. x \<notin> set (a # L)) (LinkedTo (h p))\<rparr>
          else if r \<in> set (a # L) then (h r)\<lparr>LinkedTo := removeAll p (LinkedTo (h r))\<rparr>
          else h r)"
      unfolding BreakLinkTo_eq
      by (simp add: filter_removeAll_notin del: set_simps) auto
  qed
  finally show ?case .
qed

lemma BreakAllPinLinks_eq:
  "BreakAllPinLinks p h =
     (\<lambda>r. if r = p then (h p)\<lparr>LinkedTo := []\<rparr>
          else if r \<in> set (LinkedTo (h p)) then (h r)\<lparr>LinkedTo := removeAll p (LinkedTo (h r))\<rparr>
          else h r)"
  unfolding BreakAllPinLinks_def fold_BreakLinkTo_eq filter_notin_self ..

subsection \<open>The rewire loop\<close>

lemma SearchNewPin_Some:
  "SearchNewPin c start matched New h name = Some j \<Longrightarrow> start < length New \<Longrightarrow>
     j < length New \<and> \<not> matched ! j \<and> EdPinName (h (New ! j)) = name"
proof (induction c arbitrary: start)
  case 0
  then show ?case by simp
next
  case (Suc c)
  show ?case
  proof (cases "\<not> matched ! start \<and> EdPinName (h (New ! start)) = name")
    case True
    then show ?thesis using Suc.prems by simp
  next
    case False
    then have "SearchNewPin c ((start + 1) mod length New) matched New h name = Some j"
      using Suc.prems(1) by auto
    moreover have "0 < length New" using Suc.prems(2) by linarith
    then have "(start + 1) mod length New < length New" by (rule mod_less_divisor)
    ultimately show ?thesis by (rule Suc.IH)
  qed
qed

lemma SearchNewPin_cong:
  "(\<forall>j < length New. EdPinName (h (New ! j)) = EdPinName (h' (New ! j))) \<Longrightarrow> start < length New \<Longrightarrow>
     SearchNewPin c start matched New h name = SearchNewPin c start matched New h' name"
proof (induction c arbitrary: start)
  case 0
  show ?case by simp
next
  case (Suc c)
  have "0 < length New" using Suc.prems(2) by linarith
  then have "(start + 1) mod length New < length New" by (rule mod_less_divisor)
  from Suc.IH [OF Suc.prems(1) this] show ?case using Suc.prems by simp
qed

lemma RewireStep_matched:
  "StepSearch n k i st = Some j \<Longrightarrow>
   RewireStep n k i st =
     st\<lparr>RW_World := ReconstructSinglePin (Pins (GraphNodes (RW_World st) n) ! j) (InOldPins st ! i) (RW_World st),
        MatchedPins := (MatchedPins st)(InOldPins st ! i \<mapsto> Pins (GraphNodes (RW_World st) n) ! j),
        NewPinMatched := (NewPinMatched st)[j := True]\<rparr>"
  by (simp add: RewireStep_def StepSearch_def HeapOf_def Let_def)

lemma RewireStep_unmatched:
  "StepSearch n k i st = None \<Longrightarrow>
   RewireStep n k i st =
     (if bOrphanPinsEnabled (RW_World st) \<and> \<not> bDisableOrphanPinSaving (GraphNodes (RW_World st) n)
         \<and> OrphanedPinSaveMode (GraphNodes (RW_World st) n) = SaveAll
         \<and> \<not> bHidden (HeapOf st (InOldPins st ! i)) \<and> bSavePinIfOrphaned (HeapOf st (InOldPins st ! i))
         \<and> LinkedTo (HeapOf st (InOldPins st ! i)) \<noteq> []
      then st\<lparr>RW_World := (RW_World st)\<lparr>GraphPins := (HeapOf st)(InOldPins st ! i := MarkOrphan (HeapOf st (InOldPins st ! i)))\<rparr>,
              OrphanedOldPins := OrphanedOldPins st @ [InOldPins st ! i],
              InOldPins := RemoveAt i (InOldPins st)\<rparr>
      else st)"
  by (simp add: RewireStep_def StepSearch_def HeapOf_def Let_def MarkOrphan_def ShouldSavePinIfOrphaned_def)

lemma nth_notin_drop: "distinct xs \<Longrightarrow> i < length xs \<Longrightarrow> xs ! i \<notin> set (drop (Suc i) xs)"
proof -
  assume d: "distinct xs" and i: "i < length xs"
  have "xs = take i xs @ xs ! i # drop (Suc i) xs" using i by (rule id_take_nth_drop)
  then have "distinct (take i xs @ xs ! i # drop (Suc i) xs)" using d by simp
  then show ?thesis by simp
qed

lemma InvD_frame:
  "RewireInv n w2 Old c st \<Longrightarrow> RW_World st = w2\<lparr>GraphPins := HeapOf st\<rparr>"
  unfolding RewireInv_def InvFrame_def by blast

lemma InvD_length:
  "RewireInv n w2 Old c st \<Longrightarrow> length (NewPinMatched st) = length (Pins (GraphNodes w2 n))"
  unfolding RewireInv_def InvFrame_def by blast

lemma InvD_InOldPins:
  "RewireInv n w2 Old c st \<Longrightarrow>
     InOldPins st = take c Old @ filter (\<lambda>p. \<not> Orphaned w2 n st p) (drop c Old)"
  unfolding RewireInv_def InvLists_def by blast

lemma InvD_Orphaned:
  "RewireInv n w2 Old c st \<Longrightarrow>
     OrphanedOldPins st = rev (filter (Orphaned w2 n st) (drop c Old))"
  unfolding RewireInv_def InvLists_def by blast

lemma InvD_matched:
  assumes "RewireInv n w2 Old c st" and "MatchedPins st p = Some q"
  shows "p \<in> set (drop c Old)"
    and "\<exists>j < length (Pins (GraphNodes w2 n)). q = Pins (GraphNodes w2 n) ! j \<and> NewPinMatched st ! j"
    and "LinkedTo (HeapOf st q) = LinkedTo (GraphPins w2 p)"
    and "EdPinName (GraphPins w2 q) = EdPinName (GraphPins w2 p)"
    and "\<forall>t \<in> set (LinkedTo (GraphPins w2 p)). q \<in> set (LinkedTo (HeapOf st t))"
  using assms unfolding RewireInv_def InvMatched_def by blast+

lemma InvD_free:
  "RewireInv n w2 Old c st \<Longrightarrow> j < length (Pins (GraphNodes w2 n)) \<Longrightarrow> \<not> NewPinMatched st ! j \<Longrightarrow>
     LinkedTo (HeapOf st (Pins (GraphNodes w2 n) ! j)) = []"
  unfolding RewireInv_def InvFree_def by blast

lemma InvD_old:
  "RewireInv n w2 Old c st \<Longrightarrow> p \<in> set Old \<Longrightarrow>
     HeapOf st p = (if p \<in> set (drop c Old) \<and> Orphaned w2 n st p then MarkOrphan (GraphPins w2 p)
                    else GraphPins w2 p)"
  unfolding RewireInv_def InvOld_def by blast

lemma InvD_new:
  "RewireInv n w2 Old c st \<Longrightarrow> q \<in> set (Pins (GraphNodes w2 n)) \<Longrightarrow>
     SansLinks (HeapOf st q) = SansLinks (GraphPins w2 q)"
  unfolding RewireInv_def InvNew_def by blast

lemma CtxD:
  assumes "RewireCtx n w2 Old"
  shows "distinct Old" and "distinct (Pins (GraphNodes w2 n))"
    and "p \<in> set Old \<Longrightarrow> p \<notin> set (Pins (GraphNodes w2 n))"
    and "p \<in> set Old \<Longrightarrow> t \<in> set (LinkedTo (GraphPins w2 p)) \<Longrightarrow> t \<notin> set Old"
    and "p \<in> set Old \<Longrightarrow> t \<in> set (LinkedTo (GraphPins w2 p)) \<Longrightarrow> t \<notin> set (Pins (GraphNodes w2 n))"
    and "q \<in> set (Pins (GraphNodes w2 n)) \<Longrightarrow> LinkedTo (GraphPins w2 q) = []"
  using assms unfolding RewireCtx_def by blast+

lemma World_frame_fields:
  assumes "w = w2\<lparr>GraphPins := h\<rparr>"
  shows "GraphNodes w = GraphNodes w2" and "bOrphanPinsEnabled w = bOrphanPinsEnabled w2"
    and "NodeInstances w = NodeInstances w2" and "Trace w = Trace w2" and "NextPinRef w = NextPinRef w2"
  by (simp_all add: assms)

lemma Inv_basic:
  assumes ctx: "RewireCtx n w2 Old" and inv: "RewireInv n w2 Old (Suc i) st" and i: "i < length Old"
  shows "InOldPins st ! i = Old ! i"
    and "GraphNodes (RW_World st) = GraphNodes w2"
    and "bOrphanPinsEnabled (RW_World st) = bOrphanPinsEnabled w2"
    and "HeapOf st (Old ! i) = GraphPins w2 (Old ! i)"
    and "MatchedPins st (Old ! i) = None"
    and "Old ! i \<notin> set (drop (Suc i) Old)"
    and "Old ! i \<notin> set (Pins (GraphNodes w2 n))"
proof -
  have mem: "Old ! i \<in> set Old" using i by simp
  show nd: "Old ! i \<notin> set (drop (Suc i) Old)"
    using CtxD(1) [OF ctx] i by (rule nth_notin_drop)
  show "InOldPins st ! i = Old ! i"
    unfolding InvD_InOldPins [OF inv] using i by (simp add: nth_append)
  show "GraphNodes (RW_World st) = GraphNodes w2"
    by (rule World_frame_fields(1) [OF InvD_frame [OF inv]])
  show "bOrphanPinsEnabled (RW_World st) = bOrphanPinsEnabled w2"
    by (rule World_frame_fields(2) [OF InvD_frame [OF inv]])
  show "HeapOf st (Old ! i) = GraphPins w2 (Old ! i)"
    using InvD_old [OF inv mem] nd by simp
  show "MatchedPins st (Old ! i) = None"
  proof (cases "MatchedPins st (Old ! i)")
    case None
    then show ?thesis .
  next
    case (Some q)
    from InvD_matched(1) [OF inv Some] nd show ?thesis by simp
  qed
  show "Old ! i \<notin> set (Pins (GraphNodes w2 n))"
    by (rule CtxD(3) [OF ctx mem])
qed

lemma RemoveAt_take_Suc:
  "i < length xs \<Longrightarrow> RemoveAt i (take (Suc i) xs @ ys) = take i xs @ ys"
  by (simp add: RemoveAt_def take_Suc_conv_app_nth)

lemma RewireInvI:
  "InvFrame n w2 st \<Longrightarrow> InvLists n w2 Old c st \<Longrightarrow> InvMatched n w2 Old c st \<Longrightarrow>
   InvFree n w2 st \<Longrightarrow> InvOld n w2 Old c st \<Longrightarrow> InvNew n w2 st \<Longrightarrow> RewireInv n w2 Old c st"
  unfolding RewireInv_def by blast

lemma step_test:
  assumes ctx: "RewireCtx n w2 Old" and inv: "RewireInv n w2 Old (Suc i) st" and i: "i < length Old"
  shows "(bOrphanPinsEnabled (RW_World st) \<and> \<not> bDisableOrphanPinSaving (GraphNodes (RW_World st) n)
         \<and> OrphanedPinSaveMode (GraphNodes (RW_World st) n) = SaveAll
         \<and> \<not> bHidden (HeapOf st (InOldPins st ! i)) \<and> bSavePinIfOrphaned (HeapOf st (InOldPins st ! i))
         \<and> LinkedTo (HeapOf st (InOldPins st ! i)) \<noteq> []) = Orphaned w2 n st (Old ! i)"
  unfolding Inv_basic [OF ctx inv i] Orphaned_def OrphanCondition_def by simp

lemma step_orphan:
  assumes ctx: "RewireCtx n w2 Old" and inv: "RewireInv n w2 Old (Suc i) st" and i: "i < length Old"
    and s: "StepSearch n k i st = None" and o: "Orphaned w2 n st (Old ! i)"
  shows "RewireInv n w2 Old i (RewireStep n k i st)"
proof -
  note b = Inv_basic [OF ctx inv i]
  define p where "p = Old ! i"
  define st' where "st' = RewireStep n k i st"
  have eq0: "st' = st\<lparr>RW_World := (RW_World st)\<lparr>GraphPins := (HeapOf st)(InOldPins st ! i := MarkOrphan (HeapOf st (InOldPins st ! i)))\<rparr>,
              OrphanedOldPins := OrphanedOldPins st @ [InOldPins st ! i],
              InOldPins := RemoveAt i (InOldPins st)\<rparr>"
    unfolding st'_def RewireStep_unmatched [OF s] step_test [OF ctx inv i] using o by simp
  have eq: "st' = st\<lparr>RW_World := (RW_World st)\<lparr>GraphPins := (HeapOf st)(p := MarkOrphan (GraphPins w2 p))\<rparr>,
              OrphanedOldPins := OrphanedOldPins st @ [p],
              InOldPins := RemoveAt i (InOldPins st)\<rparr>"
    using eq0 unfolding b p_def .
  have hp: "HeapOf st' = (HeapOf st)(p := MarkOrphan (GraphPins w2 p))"
    unfolding eq HeapOf_def by simp
  have mp: "MatchedPins st' = MatchedPins st" unfolding eq by simp
  have nm: "NewPinMatched st' = NewPinMatched st" unfolding eq by simp
  have orph: "Orphaned w2 n st' = Orphaned w2 n st"
    by (rule ext) (simp add: Orphaned_def mp)
  have dr: "drop i Old = p # drop (Suc i) Old" unfolding p_def using i by (simp add: Cons_nth_drop_Suc)
  have pn: "p \<notin> set (Pins (GraphNodes w2 n))" unfolding p_def by (rule b(7))
  have op: "Orphaned w2 n st p" using o unfolding p_def .
  have 1: "InvFrame n w2 st'"
  proof -
    have "RW_World st' = (RW_World st)\<lparr>GraphPins := HeapOf st'\<rparr>" unfolding hp unfolding eq by simp
    also have "\<dots> = w2\<lparr>GraphPins := HeapOf st'\<rparr>" by (subst InvD_frame [OF inv]) simp
    finally show ?thesis unfolding InvFrame_def nm using InvD_length [OF inv] by simp
  qed
  have 2: "InvLists n w2 Old i st'"
  proof -
    have a: "InOldPins st' = take i Old @ filter (\<lambda>p. \<not> Orphaned w2 n st p) (drop (Suc i) Old)"
      unfolding eq using RemoveAt_take_Suc [OF i] by (simp add: InvD_InOldPins [OF inv])
    have c: "OrphanedOldPins st' = rev (filter (Orphaned w2 n st) (drop (Suc i) Old)) @ [p]"
      unfolding eq by (simp add: InvD_Orphaned [OF inv])
    show ?thesis unfolding InvLists_def orph dr using a c op by simp
  qed
  have 3: "InvMatched n w2 Old i st'"
    unfolding InvMatched_def
  proof (intro allI impI)
    fix p0 q assume "MatchedPins st' p0 = Some q"
    then have m0: "MatchedPins st p0 = Some q" unfolding mp .
    note old = InvD_matched [OF inv m0]
    have qnew: "q \<in> set (Pins (GraphNodes w2 n))" using old(2) by auto
    have qp: "q \<noteq> p" using qnew pn by auto
    have pold: "p0 \<in> set Old" using old(1) by (meson in_set_dropD)
    have pmem: "p \<in> set Old" unfolding p_def using i by simp
    have tp: "t \<in> set (LinkedTo (GraphPins w2 p0)) \<Longrightarrow> t \<noteq> p" for t
      using CtxD(4) [OF ctx pold] pmem by auto
    have a: "p0 \<in> set (drop i Old)" unfolding dr using old(1) by simp
    have c: "\<exists>j < length (Pins (GraphNodes w2 n)). q = Pins (GraphNodes w2 n) ! j \<and> NewPinMatched st' ! j"
      unfolding nm by (rule old(2))
    have d: "LinkedTo (HeapOf st' q) = LinkedTo (GraphPins w2 p0)"
      unfolding hp using qp old(3) by simp
    have e: "\<forall>t \<in> set (LinkedTo (GraphPins w2 p0)). q \<in> set (LinkedTo (HeapOf st' t))"
      unfolding hp using tp old(5) by simp
    from a c d old(4) e
    show "p0 \<in> set (drop i Old)
        \<and> (\<exists>j < length (Pins (GraphNodes w2 n)). q = Pins (GraphNodes w2 n) ! j \<and> NewPinMatched st' ! j)
        \<and> LinkedTo (HeapOf st' q) = LinkedTo (GraphPins w2 p0)
        \<and> EdPinName (GraphPins w2 q) = EdPinName (GraphPins w2 p0)
        \<and> (\<forall>t \<in> set (LinkedTo (GraphPins w2 p0)). q \<in> set (LinkedTo (HeapOf st' t)))"
      by blast
  qed
  have 4: "InvFree n w2 st'"
    unfolding InvFree_def
  proof (intro allI impI)
    fix j assume j: "j < length (Pins (GraphNodes w2 n))" and nj: "\<not> NewPinMatched st' ! j"
    have "Pins (GraphNodes w2 n) ! j \<in> set (Pins (GraphNodes w2 n))" using j by simp
    then have "Pins (GraphNodes w2 n) ! j \<noteq> p" using pn by auto
    moreover have "LinkedTo (HeapOf st (Pins (GraphNodes w2 n) ! j)) = []"
      using InvD_free [OF inv j] nj unfolding nm by simp
    ultimately show "LinkedTo (HeapOf st' (Pins (GraphNodes w2 n) ! j)) = []"
      unfolding hp by simp
  qed
  have 5: "InvOld n w2 Old i st'"
    unfolding InvOld_def orph
  proof
    fix p0 assume p0: "p0 \<in> set Old"
    show "HeapOf st' p0 = (if p0 \<in> set (drop i Old) \<and> Orphaned w2 n st p0
                               then MarkOrphan (GraphPins w2 p0) else GraphPins w2 p0)"
      unfolding hp dr using InvD_old [OF inv p0] op by simp
  qed
  have 6: "InvNew n w2 st'"
    unfolding InvNew_def
  proof
    fix q assume q: "q \<in> set (Pins (GraphNodes w2 n))"
    then have "q \<noteq> p" using pn by auto
    then show "SansLinks (HeapOf st' q) = SansLinks (GraphPins w2 q)"
      unfolding hp using InvD_new [OF inv q] by simp
  qed
  show ?thesis using RewireInvI [OF 1 2 3 4 5 6] unfolding st'_def .
qed

lemma step_discard:
  assumes ctx: "RewireCtx n w2 Old" and inv: "RewireInv n w2 Old (Suc i) st" and i: "i < length Old"
    and s: "StepSearch n k i st = None" and o: "\<not> Orphaned w2 n st (Old ! i)"
  shows "RewireInv n w2 Old i (RewireStep n k i st)"
proof -
  note b = Inv_basic [OF ctx inv i]
  define p where "p = Old ! i"
  have eq: "RewireStep n k i st = st"
    unfolding RewireStep_unmatched [OF s] step_test [OF ctx inv i] using o by simp
  have dr: "drop i Old = p # drop (Suc i) Old" unfolding p_def using i by (simp add: Cons_nth_drop_Suc)
  have tk: "take (Suc i) Old = take i Old @ [p]" unfolding p_def using i by (simp add: take_Suc_conv_app_nth)
  have op: "\<not> Orphaned w2 n st p" using o unfolding p_def .
  have 1: "InvFrame n w2 st" using inv unfolding RewireInv_def by blast
  have 2: "InvLists n w2 Old i st"
    unfolding InvLists_def dr using op
    by (simp add: InvD_InOldPins [OF inv] InvD_Orphaned [OF inv] tk)
  have 3: "InvMatched n w2 Old i st"
    unfolding InvMatched_def
  proof (intro allI impI)
    fix p0 q assume m0: "MatchedPins st p0 = Some q"
    note old = InvD_matched [OF inv m0]
    have a: "p0 \<in> set (drop i Old)" unfolding dr using old(1) by simp
    from a old(2-5)
    show "p0 \<in> set (drop i Old)
        \<and> (\<exists>j < length (Pins (GraphNodes w2 n)). q = Pins (GraphNodes w2 n) ! j \<and> NewPinMatched st ! j)
        \<and> LinkedTo (HeapOf st q) = LinkedTo (GraphPins w2 p0)
        \<and> EdPinName (GraphPins w2 q) = EdPinName (GraphPins w2 p0)
        \<and> (\<forall>t \<in> set (LinkedTo (GraphPins w2 p0)). q \<in> set (LinkedTo (HeapOf st t)))"
      by blast
  qed
  have 4: "InvFree n w2 st" using inv unfolding RewireInv_def by blast
  have 5: "InvOld n w2 Old i st"
    unfolding InvOld_def
  proof
    fix p0 assume p0: "p0 \<in> set Old"
    show "HeapOf st p0 = (if p0 \<in> set (drop i Old) \<and> Orphaned w2 n st p0
                               then MarkOrphan (GraphPins w2 p0) else GraphPins w2 p0)"
      unfolding dr using InvD_old [OF inv p0] op by auto
  qed
  have 6: "InvNew n w2 st" using inv unfolding RewireInv_def by blast
  show ?thesis unfolding eq by (rule RewireInvI [OF 1 2 3 4 5 6])
qed

lemma SansLinks_fields:
  "SansLinks a = SansLinks b \<Longrightarrow>
     EdPinName a = EdPinName b \<and> Direction a = Direction b \<and> bOrphanedPin a = bOrphanedPin b
     \<and> bNotConnectable a = bNotConnectable b \<and> bHidden a = bHidden b
     \<and> bSavePinIfOrphaned a = bSavePinIfOrphaned b \<and> ParentPin a = ParentPin b
     \<and> bWasTrashed a = bWasTrashed b \<and> EdPinType a = EdPinType b"
  by (cases a; cases b) (simp add: SansLinks_def)

lemma SansLinks_update [simp]:
  "SansLinks (pin\<lparr>DefaultValue := v, LinkedTo := l\<rparr>) = SansLinks pin"
  by (simp add: SansLinks_def)

lemma StepSearch_Some:
  assumes ctx: "RewireCtx n w2 Old" and inv: "RewireInv n w2 Old (Suc i) st" and i: "i < length Old"
    and k: "k = length (Pins (GraphNodes w2 n))" and s: "StepSearch n k i st = Some j"
  shows "j < length (Pins (GraphNodes w2 n))" and "\<not> NewPinMatched st ! j"
    and "EdPinName (GraphPins w2 (Pins (GraphNodes w2 n) ! j)) = EdPinName (GraphPins w2 (Old ! i))"
proof -
  note b = Inv_basic [OF ctx inv i]
  define New where "New = Pins (GraphNodes w2 n)"
  have k0: "k \<noteq> 0"
  proof
    assume "k = 0"
    then show False using s by (simp add: StepSearch_def)
  qed
  then have lt: "i mod k < length New" unfolding New_def k [symmetric] by simp
  have se: "SearchNewPin k (i mod k) (NewPinMatched st) New (HeapOf st) (EdPinName (GraphPins w2 (Old ! i))) = Some j"
    using s k0 unfolding StepSearch_def b New_def by simp
  note r = SearchNewPin_Some [OF se lt]
  show j: "j < length (Pins (GraphNodes w2 n))" using r unfolding New_def by blast
  show "\<not> NewPinMatched st ! j" using r by blast
  have "Pins (GraphNodes w2 n) ! j \<in> set (Pins (GraphNodes w2 n))" using j by simp
  from SansLinks_fields [OF InvD_new [OF inv this]]
  have "EdPinName (HeapOf st (New ! j)) = EdPinName (GraphPins w2 (New ! j))"
    unfolding New_def by blast
  then show "EdPinName (GraphPins w2 (Pins (GraphNodes w2 n) ! j)) = EdPinName (GraphPins w2 (Old ! i))"
    using r unfolding New_def by simp
qed

lemma step_match:
  assumes ctx: "RewireCtx n w2 Old" and inv: "RewireInv n w2 Old (Suc i) st" and i: "i < length Old"
    and k: "k = length (Pins (GraphNodes w2 n))" and s: "StepSearch n k i st = Some j"
  shows "RewireInv n w2 Old i (RewireStep n k i st)"
proof -
  note b = Inv_basic [OF ctx inv i]
  note ss = StepSearch_Some [OF ctx inv i k s]
  define p where "p = Old ! i"
  define q where "q = Pins (GraphNodes w2 n) ! j"
  define st' where "st' = RewireStep n k i st"
  define L where "L = LinkedTo (GraphPins w2 p)"
  have eq: "st' = st\<lparr>RW_World := ReconstructSinglePin q p (RW_World st),
        MatchedPins := (MatchedPins st)(p \<mapsto> q),
        NewPinMatched := (NewPinMatched st)[j := True]\<rparr>"
    unfolding st'_def RewireStep_matched [OF s] b p_def q_def ..
  have hp: "HeapOf st' = MovePersistentDataFromOldPin q p (HeapOf st)"
    unfolding eq HeapOf_def ReconstructSinglePin_def by simp
  have mp: "MatchedPins st' = (MatchedPins st)(p \<mapsto> q)" unfolding eq by simp
  have nm: "NewPinMatched st' = (NewPinMatched st)[j := True]" unfolding eq by simp
  have io: "InOldPins st' = InOldPins st" unfolding eq by simp
  have oo: "OrphanedOldPins st' = OrphanedOldPins st" unfolding eq by simp
  have pmem: "p \<in> set Old" unfolding p_def using i by simp
  have qmem: "q \<in> set (Pins (GraphNodes w2 n))" unfolding q_def using ss(1) by simp
  have qp: "q \<noteq> p" using CtxD(3) [OF ctx pmem] qmem by auto
  have hpp: "HeapOf st p = GraphPins w2 p" unfolding p_def by (rule b(4))
  have Lh: "LinkedTo (HeapOf st p) = L" unfolding L_def hpp ..
  have qL: "q \<notin> set L" unfolding L_def using CtxD(5) [OF ctx pmem] qmem by auto
  have LOld: "t \<in> set L \<Longrightarrow> t \<notin> set Old" for t unfolding L_def using CtxD(4) [OF ctx pmem] by auto
  have LNew: "t \<in> set L \<Longrightarrow> t \<notin> set (Pins (GraphNodes w2 n))" for t
    unfolding L_def using CtxD(5) [OF ctx pmem] by auto
  have other: "r \<noteq> q \<Longrightarrow> r \<notin> set L \<Longrightarrow> HeapOf st' r = HeapOf st r" for r
    unfolding hp using Move_other [OF _ qp, of r "HeapOf st"] Lh by simp
  have qfree: "LinkedTo (HeapOf st q) = []"
    unfolding q_def by (rule InvD_free [OF inv ss(1) ss(2)])
  have hq: "HeapOf st' q = (HeapOf st q)\<lparr>DefaultValue := DefaultValue (HeapOf st p), LinkedTo := L\<rparr>"
    unfolding hp using Move_new [OF qp, of "HeapOf st"] Lh qL qfree by simp
  have grows: "t \<noteq> q \<Longrightarrow> set (LinkedTo (HeapOf st t)) \<subseteq> set (LinkedTo (HeapOf st' t))" for t
    unfolding hp by (rule Move_grows [OF _ qp])
  have ins: "t \<in> set L \<Longrightarrow> q \<in> set (LinkedTo (HeapOf st' t))" for t
    unfolding hp using Move_inserted [OF _ _ qp, of t "HeapOf st"] Lh qL by auto
  have orph: "Orphaned w2 n st' x = (x \<noteq> p \<and> Orphaned w2 n st x)" for x
    unfolding Orphaned_def mp by auto
  have dr: "drop i Old = p # drop (Suc i) Old" unfolding p_def using i by (simp add: Cons_nth_drop_Suc)
  have tk: "take (Suc i) Old = take i Old @ [p]" unfolding p_def using i by (simp add: take_Suc_conv_app_nth)
  have pnd: "p \<notin> set (drop (Suc i) Old)" unfolding p_def by (rule b(6))
  have f1: "filter (\<lambda>x. \<not> Orphaned w2 n st' x) (drop (Suc i) Old) = filter (\<lambda>x. \<not> Orphaned w2 n st x) (drop (Suc i) Old)"
    by (rule filter_cong [OF refl]) (use pnd orph in auto)
  have f2: "filter (Orphaned w2 n st') (drop (Suc i) Old) = filter (Orphaned w2 n st) (drop (Suc i) Old)"
    by (rule filter_cong [OF refl]) (use pnd orph in auto)
  have 1: "InvFrame n w2 st'"
  proof -
    have "RW_World st' = (RW_World st)\<lparr>GraphPins := HeapOf st'\<rparr>"
      unfolding hp unfolding eq ReconstructSinglePin_def HeapOf_def by simp
    also have "\<dots> = w2\<lparr>GraphPins := HeapOf st'\<rparr>" by (subst InvD_frame [OF inv]) simp
    finally show ?thesis unfolding InvFrame_def nm using InvD_length [OF inv] by simp
  qed
  have 2: "InvLists n w2 Old i st'"
    unfolding InvLists_def dr io oo
    using orph [of p] by (simp add: f1 f2 InvD_InOldPins [OF inv] InvD_Orphaned [OF inv] tk)
  have 3: "InvMatched n w2 Old i st'"
    unfolding InvMatched_def
  proof (intro allI impI)
    fix p0 q0 assume m: "MatchedPins st' p0 = Some q0"
    show "p0 \<in> set (drop i Old)
        \<and> (\<exists>j < length (Pins (GraphNodes w2 n)). q0 = Pins (GraphNodes w2 n) ! j \<and> NewPinMatched st' ! j)
        \<and> LinkedTo (HeapOf st' q0) = LinkedTo (GraphPins w2 p0)
        \<and> EdPinName (GraphPins w2 q0) = EdPinName (GraphPins w2 p0)
        \<and> (\<forall>t \<in> set (LinkedTo (GraphPins w2 p0)). q0 \<in> set (LinkedTo (HeapOf st' t)))"
    proof (cases "p0 = p")
      case True
      then have q0: "q0 = q" using m unfolding mp by simp
      have a: "p0 \<in> set (drop i Old)" unfolding dr True by simp
      have c: "\<exists>j < length (Pins (GraphNodes w2 n)). q0 = Pins (GraphNodes w2 n) ! j \<and> NewPinMatched st' ! j"
        unfolding nm q0 q_def using ss(1) InvD_length [OF inv] by auto
      have d: "LinkedTo (HeapOf st' q0) = LinkedTo (GraphPins w2 p0)"
        unfolding q0 True hq L_def by simp
      have e: "EdPinName (GraphPins w2 q0) = EdPinName (GraphPins w2 p0)"
        unfolding q0 True q_def p_def by (rule ss(3))
      have f: "\<forall>t \<in> set (LinkedTo (GraphPins w2 p0)). q0 \<in> set (LinkedTo (HeapOf st' t))"
        unfolding q0 True using ins unfolding L_def by blast
      from a c d e f show ?thesis by blast
    next
      case False
      then have m0: "MatchedPins st p0 = Some q0" using m unfolding mp by simp
      note old = InvD_matched [OF inv m0]
      from old(2) obtain j0 where j0: "j0 < length (Pins (GraphNodes w2 n))"
        "q0 = Pins (GraphNodes w2 n) ! j0" "NewPinMatched st ! j0" by blast
      have jj: "j0 \<noteq> j" using j0(3) ss(2) by auto
      have q0q: "q0 \<noteq> q"
        unfolding j0(2) q_def using jj j0(1) ss(1) CtxD(2) [OF ctx] by (simp add: nth_eq_iff_index_eq)
      have q0new: "q0 \<in> set (Pins (GraphNodes w2 n))" unfolding j0(2) using j0(1) by simp
      have q0L: "q0 \<notin> set L" using LNew q0new by blast
      have a: "p0 \<in> set (drop i Old)" unfolding dr using old(1) by simp
      have c: "\<exists>j < length (Pins (GraphNodes w2 n)). q0 = Pins (GraphNodes w2 n) ! j \<and> NewPinMatched st' ! j"
        unfolding nm using j0 jj by auto
      have d: "LinkedTo (HeapOf st' q0) = LinkedTo (GraphPins w2 p0)"
        using other [OF q0q q0L] old(3) by simp
      have p0old: "p0 \<in> set Old" using old(1) by (meson in_set_dropD)
      have f: "\<forall>t \<in> set (LinkedTo (GraphPins w2 p0)). q0 \<in> set (LinkedTo (HeapOf st' t))"
      proof
        fix t assume t: "t \<in> set (LinkedTo (GraphPins w2 p0))"
        then have "t \<notin> set (Pins (GraphNodes w2 n))" using CtxD(5) [OF ctx p0old] by blast
        then have "t \<noteq> q" using qmem by auto
        from grows [OF this] old(5) t show "q0 \<in> set (LinkedTo (HeapOf st' t))" by blast
      qed
      from a c d old(4) f show ?thesis by blast
    qed
  qed
  have 4: "InvFree n w2 st'"
    unfolding InvFree_def
  proof (intro allI impI)
    fix j0 assume j0: "j0 < length (Pins (GraphNodes w2 n))" and nj: "\<not> NewPinMatched st' ! j0"
    have jj: "j0 \<noteq> j" using nj j0 ss(1) InvD_length [OF inv] unfolding nm by auto
    then have nj0: "\<not> NewPinMatched st ! j0" using nj unfolding nm by simp
    have neq: "Pins (GraphNodes w2 n) ! j0 \<noteq> q"
      unfolding q_def using jj j0 ss(1) CtxD(2) [OF ctx] by (simp add: nth_eq_iff_index_eq)
    have "Pins (GraphNodes w2 n) ! j0 \<in> set (Pins (GraphNodes w2 n))" using j0 by simp
    then have nl: "Pins (GraphNodes w2 n) ! j0 \<notin> set L" using LNew by blast
    show "LinkedTo (HeapOf st' (Pins (GraphNodes w2 n) ! j0)) = []"
      using other [OF neq nl] InvD_free [OF inv j0 nj0] by simp
  qed
  have 5: "InvOld n w2 Old i st'"
    unfolding InvOld_def
  proof
    fix p0 assume p0: "p0 \<in> set Old"
    have "p0 \<noteq> q" using CtxD(3) [OF ctx p0] qmem by auto
    moreover have "p0 \<notin> set L" using LOld p0 by blast
    ultimately have u: "HeapOf st' p0 = HeapOf st p0" by (rule other)
    show "HeapOf st' p0 = (if p0 \<in> set (drop i Old) \<and> Orphaned w2 n st' p0
                               then MarkOrphan (GraphPins w2 p0) else GraphPins w2 p0)"
      unfolding u dr orph using InvD_old [OF inv p0] pnd by auto
  qed
  have 6: "InvNew n w2 st'"
    unfolding InvNew_def
  proof
    fix q0 assume q0: "q0 \<in> set (Pins (GraphNodes w2 n))"
    show "SansLinks (HeapOf st' q0) = SansLinks (GraphPins w2 q0)"
    proof (cases "q0 = q")
      case True
      show ?thesis unfolding True hq using InvD_new [OF inv qmem] by simp
    next
      case False
      have "q0 \<notin> set L" using LNew q0 by blast
      from other [OF False this] show ?thesis using InvD_new [OF inv q0] by simp
    qed
  qed
  show ?thesis using RewireInvI [OF 1 2 3 4 5 6] unfolding st'_def .
qed

lemma RewireStep_inv:
  assumes ctx: "RewireCtx n w2 Old" and inv: "RewireInv n w2 Old (Suc i) st" and i: "i < length Old"
    and k: "k = length (Pins (GraphNodes w2 n))"
  shows "RewireInv n w2 Old i (RewireStep n k i st)"
proof (cases "StepSearch n k i st")
  case None
  show ?thesis
    by (cases "Orphaned w2 n st (Old ! i)")
       (rule step_orphan [OF ctx inv i None], assumption, rule step_discard [OF ctx inv i None], assumption)
next
  case (Some j)
  show ?thesis by (rule step_match [OF ctx inv i k Some])
qed

lemma RewireLoop_inv:
  assumes ctx: "RewireCtx n w2 Old" and k: "k = length (Pins (GraphNodes w2 n))"
  shows "c \<le> length Old \<Longrightarrow> RewireInv n w2 Old c st \<Longrightarrow> RewireInv n w2 Old 0 (RewireLoop n k c st)"
proof (induction c arbitrary: st)
  case 0
  then show ?case by simp
next
  case (Suc c)
  have "c < length Old" using Suc.prems(1) by simp
  from RewireStep_inv [OF ctx Suc.prems(2) this k]
  have "RewireInv n w2 Old c (RewireStep n k c st)" .
  from Suc.IH [OF _ this] Suc.prems(1) show ?case by simp
qed

lemma RewireInit_inv:
  assumes ctx: "RewireCtx n w2 Old"
  shows "RewireInv n w2 Old (length Old) (RewireInit n Old w2)"
proof -
  have 1: "InvFrame n w2 (RewireInit n Old w2)"
    unfolding InvFrame_def RewireInit_def HeapOf_def by simp
  have 2: "InvLists n w2 Old (length Old) (RewireInit n Old w2)"
    unfolding InvLists_def RewireInit_def by simp
  have 3: "InvMatched n w2 Old (length Old) (RewireInit n Old w2)"
    unfolding InvMatched_def RewireInit_def by simp
  have 4: "InvFree n w2 (RewireInit n Old w2)"
    unfolding InvFree_def RewireInit_def HeapOf_def using CtxD(6) [OF ctx] by simp
  have 5: "InvOld n w2 Old (length Old) (RewireInit n Old w2)"
    unfolding InvOld_def RewireInit_def HeapOf_def by simp
  have 6: "InvNew n w2 (RewireInit n Old w2)"
    unfolding InvNew_def RewireInit_def HeapOf_def by simp
  show ?thesis by (rule RewireInvI [OF 1 2 3 4 5 6])
qed

lemma RewireMatch_inv:
  "RewireCtx n w2 Old \<Longrightarrow> RewireInv n w2 Old 0 (RewireMatch n Old w2)"
  unfolding RewireMatch_def
  by (rule RewireLoop_inv [OF _ refl order_refl RewireInit_inv])

subsection \<open>Placing the orphans and destroying the old pins\<close>

lemma PlaceOrphanedPin_summary:
  "GraphPins (PlaceOrphanedPin n p w) = GraphPins w
   \<and> NextPinRef (PlaceOrphanedPin n p w) = NextPinRef w
   \<and> PinsOnly n w (PlaceOrphanedPin n p w)
   \<and> Pins (GraphNodes (PlaceOrphanedPin n p w) n) =
       Pins (GraphNodes w n) @ (if ParentPin (GraphPins w p) = None then [p] else [])"
  by (cases "Direction (GraphPins w p)")
     (simp_all add: PlaceOrphanedPin_def Let_def PinsOnly_def NodeSansPins_def)

lemma fold_PlaceOrphanedPin_summary:
  "GraphPins (fold (PlaceOrphanedPin n) ps w) = GraphPins w
   \<and> NextPinRef (fold (PlaceOrphanedPin n) ps w) = NextPinRef w
   \<and> PinsOnly n w (fold (PlaceOrphanedPin n) ps w)
   \<and> Pins (GraphNodes (fold (PlaceOrphanedPin n) ps w) n) =
       Pins (GraphNodes w n) @ filter (\<lambda>p. ParentPin (GraphPins w p) = None) ps"
proof (induction ps arbitrary: w)
  case Nil
  show ?case by (simp add: PinsOnly_refl)
next
  case (Cons p ps)
  note a = PlaceOrphanedPin_summary [of n p w]
  note c = Cons.IH [of "PlaceOrphanedPin n p w"]
  have "PinsOnly n w (fold (PlaceOrphanedPin n) ps (PlaceOrphanedPin n p w))"
    using a c PinsOnly_trans by blast
  then show ?case using a c by simp
qed

lemma fold_DestroyOldPin:
  "fold DestroyOldPin R w = w\<lparr>GraphPins := DestroyAll R (GraphPins w)\<rparr>"
proof (induction R arbitrary: w)
  case Nil
  show ?case by (simp add: DestroyAll_def)
next
  case (Cons a R)
  show ?case
    by (simp only: fold_simps o_apply Cons.IH) (simp add: DestroyOldPin_def DestroyAll_def)
qed

lemma Destroy_one:
  "DestroyPin a (BreakAllPinLinks a h) =
     (\<lambda>x. if x = a then (h a)\<lparr>LinkedTo := [], bWasTrashed := True\<rparr>
          else if x \<in> set (LinkedTo (h a)) then (h x)\<lparr>LinkedTo := removeAll a (LinkedTo (h x))\<rparr>
          else h x)"
  unfolding DestroyPin_def BreakAllPinLinks_eq by (rule ext) simp

lemma DestroyAll_eq:
  "distinct R \<Longrightarrow> (\<forall>r \<in> set R. \<forall>t \<in> set (LinkedTo (h r)). t \<notin> set R) \<Longrightarrow>
   DestroyAll R h =
     (\<lambda>x. if x \<in> set R then (h x)\<lparr>LinkedTo := [], bWasTrashed := True\<rparr>
          else (h x)\<lparr>LinkedTo := filter (\<lambda>y. \<not> Severed R h x y) (LinkedTo (h x))\<rparr>)"
proof (induction R arbitrary: h)
  case Nil
  show ?case by (rule ext) (simp add: DestroyAll_def Severed_def)
next
  case (Cons a R)
  define h1 where "h1 = DestroyPin a (BreakAllPinLinks a h)"
  have aR: "a \<notin> set R" and dR: "distinct R" using Cons.prems(1) by simp_all
  have la: "t \<in> set (LinkedTo (h a)) \<Longrightarrow> t \<noteq> a \<and> t \<notin> set R" for t
    using Cons.prems(2) by auto
  have keep: "r \<in> set R \<Longrightarrow> h1 r = h r" for r
    unfolding h1_def Destroy_one using aR Cons.prems(2) by auto
  have hyp: "\<forall>r \<in> set R. \<forall>t \<in> set (LinkedTo (h1 r)). t \<notin> set R"
    using keep Cons.prems(2) by auto
  have sev: "y \<noteq> a \<Longrightarrow> Severed R h1 x y = Severed (a # R) h x y" for x y
    unfolding Severed_def using keep by auto
  have "DestroyAll (a # R) h = DestroyAll R h1"
    unfolding DestroyAll_def h1_def by simp
  also have "\<dots> = (\<lambda>x. if x \<in> set R then (h1 x)\<lparr>LinkedTo := [], bWasTrashed := True\<rparr>
          else (h1 x)\<lparr>LinkedTo := filter (\<lambda>y. \<not> Severed R h1 x y) (LinkedTo (h1 x))\<rparr>)"
    by (rule Cons.IH [OF dR hyp])
  also have "\<dots> = (\<lambda>x. if x \<in> set (a # R) then (h x)\<lparr>LinkedTo := [], bWasTrashed := True\<rparr>
          else (h x)\<lparr>LinkedTo := filter (\<lambda>y. \<not> Severed (a # R) h x y) (LinkedTo (h x))\<rparr>)"
  proof (rule ext)
    fix x
    consider (inR) "x \<in> set R" | (isa) "x = a" | (linked) "x \<notin> set R" "x \<noteq> a" "x \<in> set (LinkedTo (h a))"
      | (other) "x \<notin> set R" "x \<noteq> a" "x \<notin> set (LinkedTo (h a))" by blast
    then show "(if x \<in> set R then (h1 x)\<lparr>LinkedTo := [], bWasTrashed := True\<rparr>
          else (h1 x)\<lparr>LinkedTo := filter (\<lambda>y. \<not> Severed R h1 x y) (LinkedTo (h1 x))\<rparr>) =
         (if x \<in> set (a # R) then (h x)\<lparr>LinkedTo := [], bWasTrashed := True\<rparr>
          else (h x)\<lparr>LinkedTo := filter (\<lambda>y. \<not> Severed (a # R) h x y) (LinkedTo (h x))\<rparr>)"
    proof cases
      case inR
      then show ?thesis using keep by simp
    next
      case isa
      have "h1 a = (h a)\<lparr>LinkedTo := [], bWasTrashed := True\<rparr>" unfolding h1_def Destroy_one by simp
      then show ?thesis using isa aR by simp
    next
      case linked
      have h1x: "h1 x = (h x)\<lparr>LinkedTo := removeAll a (LinkedTo (h x))\<rparr>"
        unfolding h1_def Destroy_one using linked by simp
      have sa: "Severed (a # R) h x a" unfolding Severed_def using linked by simp
      have nsa: "\<not> Severed R h1 x a" unfolding Severed_def using aR by simp
      have "filter (\<lambda>y. \<not> Severed R h1 x y) (removeAll a (LinkedTo (h x)))
            = filter (\<lambda>y. \<not> Severed (a # R) h x y) (LinkedTo (h x))"
        unfolding removeAll_filter_not_eq filter_filter
        by (rule filter_cong [OF refl]) (use sev sa nsa in metis)
      then show ?thesis using linked h1x by simp
    next
      case other
      have h1x: "h1 x = h x" unfolding h1_def Destroy_one using other by simp
      have na: "\<not> Severed (a # R) h x a" unfolding Severed_def using other by simp
      have "filter (\<lambda>y. \<not> Severed R h1 x y) (LinkedTo (h x))
            = filter (\<lambda>y. \<not> Severed (a # R) h x y) (LinkedTo (h x))"
      proof (rule filter_cong [OF refl])
        fix y assume "y \<in> set (LinkedTo (h x))"
        show "(\<not> Severed R h1 x y) = (\<not> Severed (a # R) h x y)"
        proof (cases "y = a")
          case True
          have "\<not> Severed R h1 x a" unfolding Severed_def using aR by simp
          then show ?thesis using True na by simp
        next
          case False
          then show ?thesis using sev by simp
        qed
      qed
      then show ?thesis using other h1x by simp
    qed
  qed
  finally show ?case .
qed

subsection \<open>The allocated world\<close>

lemma ValidPins_idem [simp]: "ValidPins (ValidPins ds) = ValidPins ds"
  by (simp add: ValidPins_def)

lemma ValidPins_Nil [simp]: "ValidPins [] = []"
  by (simp add: ValidPins_def)

lemma fold_CreateDirPin_ValidPins:
  "fold (\<lambda>d. CreateDirPin Dir d n) (ValidPins ds) w = fold (\<lambda>d. CreateDirPin Dir d n) ds w"
proof (induction ds arbitrary: w)
  case Nil
  show ?case by (simp add: ValidPins_def)
next
  case (Cons d ds)
  have v: "ValidPins (d # ds) = (if PinName d = NAME_None then ValidPins ds else d # ValidPins ds)"
    by (simp add: ValidPins_def)
  show ?case
    by (cases "PinName d = NAME_None") (simp_all add: v Cons.IH CreateDirPin_invalid)
qed

lemma ClearPins_PinsOnly: "PinsOnly n w (ClearPins n w)"
  by (simp add: PinsOnly_def ClearPins_def NodeSansPins_def)

lemma CreateInputPin_as_Dir: "(\<lambda>InputPin. CreateInputPin InputPin n) = (\<lambda>d. CreateDirPin True d n)"
  by (intro ext) (simp add: CreateDirPin_def)

lemma CreateOutputPin_as_Dir: "(\<lambda>OutputPin. CreateOutputPin OutputPin n) = (\<lambda>d. CreateDirPin False d n)"
  by (intro ext) (simp add: CreateDirPin_def)

lemma Cast_ClearPins:
  "Cast_UFlowNode (ClearPins n w) (NodeInstance (GraphNodes (ClearPins n w) n)) =
     Cast_UFlowNode w (NodeInstance (GraphNodes w n))"
  by (simp add: Cast_UFlowNode_def ClearPins_def split: option.splits)

lemma AllocateDefaultPins_ClearPins:
  "AllocateDefaultPins n (ClearPins n w) = Some (AllocatedWorld n w)"
proof (cases "Cast_UFlowNode w (NodeInstance (GraphNodes w n))")
  case None
  then have c: "Cast_UFlowNode (ClearPins n w) (NodeInstance (GraphNodes (ClearPins n w) n)) = None"
    by (simp add: Cast_ClearPins)
  have "AllocatedWorld n w = ClearPins n w"
    using None by (simp add: AllocatedWorld_def RequiredInputs_def RequiredOutputs_def)
  moreover have "AllocateDefaultPins n (ClearPins n w) = Some (ClearPins n w)"
    unfolding AllocateDefaultPins_def c by (simp add: ClearPins_def)
  ultimately show ?thesis by simp
next
  case (Some i)
  then have c: "Cast_UFlowNode (ClearPins n w) (NodeInstance (GraphNodes (ClearPins n w) n)) = Some i"
    by (simp add: Cast_ClearPins)
  define wa where "wa = fold (\<lambda>d. CreateDirPin True d n) (NodeInputPins (NodeInstances w i)) (ClearPins n w)"
  have "PinsOnly n (ClearPins n w) wa" unfolding wa_def by (rule fold_CreateDirPin_PinsOnly)
  then have ni: "NodeInstances wa = NodeInstances w"
    by (simp add: PinsOnly_def ClearPins_def)
  have a: "AllocateDefaultPins n (ClearPins n w) =
        Some (fold (\<lambda>d. CreateDirPin False d n) (NodeOutputPins (NodeInstances w i)) wa)"
    unfolding AllocateDefaultPins_def c CreateInputPin_as_Dir CreateOutputPin_as_Dir
    by (simp add: ClearPins_def Let_def wa_def [unfolded ClearPins_def, symmetric] ni)
  have "AllocatedWorld n w = fold (\<lambda>d. CreateDirPin False d n) (NodeOutputPins (NodeInstances w i)) wa"
    unfolding AllocatedWorld_def RequiredInputs_def RequiredOutputs_def Some wa_def
    by (simp add: fold_CreateDirPin_ValidPins)
  with a show ?thesis by simp
qed

lemma AllocatedWorld_PinsOnly: "PinsOnly n w (AllocatedWorld n w)"
  unfolding AllocatedWorld_def
  by (rule PinsOnly_trans [OF PinsOnly_trans [OF ClearPins_PinsOnly fold_CreateDirPin_PinsOnly]
        fold_CreateDirPin_PinsOnly])

lemma AllocatedWorld_next:
  "NextPinRef (AllocatedWorld n w) = NextPinRef w + length (RequiredPins n w)"
  unfolding AllocatedWorld_def fold_CreateDirPin_next RequiredPins_def
  by (simp add: ClearPins_def RequiredInputs_def RequiredOutputs_def split: option.splits)

lemma AllocatedWorld_Pins:
  "Pins (GraphNodes (AllocatedWorld n w) n) = [NextPinRef w ..< NextPinRef w + length (RequiredPins n w)]"
proof -
  define a where "a = length (RequiredInputs n w)"
  define b where "b = length (RequiredOutputs n w)"
  define wa where "wa = fold (\<lambda>d. CreateDirPin True d n) (RequiredInputs n w) (ClearPins n w)"
  have va: "length (ValidPins (RequiredInputs n w)) = a"
    unfolding a_def RequiredInputs_def by (simp split: option.splits)
  have vb: "length (ValidPins (RequiredOutputs n w)) = b"
    unfolding b_def RequiredOutputs_def by (simp split: option.splits)
  have na: "NextPinRef wa = NextPinRef w + a"
    unfolding wa_def fold_CreateDirPin_next va by (simp add: ClearPins_def)
  have pa: "Pins (GraphNodes wa n) = [NextPinRef w ..< NextPinRef w + a]"
    unfolding wa_def fold_CreateDirPin_Pins va by (simp add: ClearPins_def)
  have "Pins (GraphNodes (AllocatedWorld n w) n) =
          [NextPinRef w ..< NextPinRef w + a] @ [NextPinRef w + a ..< NextPinRef w + a + b]"
    unfolding AllocatedWorld_def wa_def [symmetric] fold_CreateDirPin_Pins vb pa na ..
  also have "\<dots> = [NextPinRef w ..< NextPinRef w + (a + b)]"
    using upt_add_eq_append [of "NextPinRef w" "NextPinRef w + a" b] by (simp add: add.assoc)
  finally show ?thesis unfolding RequiredPins_def a_def b_def by simp
qed

lemma AllocatedWorld_old:
  "r < NextPinRef w \<Longrightarrow> GraphPins (AllocatedWorld n w) r = GraphPins w r"
proof -
  assume r: "r < NextPinRef w"
  define wa where "wa = fold (\<lambda>d. CreateDirPin True d n) (RequiredInputs n w) (ClearPins n w)"
  have r1: "r < NextPinRef (ClearPins n w)" using r by (simp add: ClearPins_def)
  have a: "GraphPins wa r = GraphPins (ClearPins n w) r"
    unfolding wa_def by (rule fold_CreateDirPin_old [OF r1])
  have "r < NextPinRef wa" unfolding wa_def fold_CreateDirPin_next using r1 by simp
  then have "GraphPins (AllocatedWorld n w) r = GraphPins wa r"
    unfolding AllocatedWorld_def wa_def [symmetric] by (rule fold_CreateDirPin_old)
  with a show ?thesis by (simp add: ClearPins_def)
qed

lemma AllocatedWorld_new:
  assumes j: "j < length (RequiredPins n w)"
  shows "GraphPins (AllocatedWorld n w) (NextPinRef w + j) = MakePin (RequiredDir n w j) (RequiredPins n w ! j)"
proof -
  define a where "a = length (RequiredInputs n w)"
  define wa where "wa = fold (\<lambda>d. CreateDirPin True d n) (RequiredInputs n w) (ClearPins n w)"
  have vi: "ValidPins (RequiredInputs n w) = RequiredInputs n w"
    unfolding RequiredInputs_def by (simp split: option.splits)
  have vo: "ValidPins (RequiredOutputs n w) = RequiredOutputs n w"
    unfolding RequiredOutputs_def by (simp split: option.splits)
  have nc: "NextPinRef (ClearPins n w) = NextPinRef w" by (simp add: ClearPins_def)
  have na: "NextPinRef wa = NextPinRef w + a"
    unfolding wa_def fold_CreateDirPin_next vi a_def nc ..
  show ?thesis
  proof (cases "j < a")
    case True
    have "NextPinRef w + j < NextPinRef wa" unfolding na using True by simp
    then have "GraphPins (AllocatedWorld n w) (NextPinRef w + j) = GraphPins wa (NextPinRef w + j)"
      unfolding AllocatedWorld_def wa_def [symmetric] by (rule fold_CreateDirPin_old)
    also have "\<dots> = MakePin (DirOf True) (ValidPins (RequiredInputs n w) ! j)"
      unfolding wa_def using fold_CreateDirPin_new [of j "RequiredInputs n w" True n "ClearPins n w"] True
      by (simp add: vi a_def nc)
    finally show ?thesis using True
      by (simp add: vi RequiredDir_def RequiredPins_def a_def DirOf_def nth_append)
  next
    case False
    then have jb: "j - a < length (ValidPins (RequiredOutputs n w))"
      using j unfolding RequiredPins_def a_def vo by simp
    have "GraphPins (AllocatedWorld n w) (NextPinRef wa + (j - a)) =
            MakePin (DirOf False) (ValidPins (RequiredOutputs n w) ! (j - a))"
      unfolding AllocatedWorld_def wa_def [symmetric] by (rule fold_CreateDirPin_new [OF jb])
    moreover have "NextPinRef wa + (j - a) = NextPinRef w + j" unfolding na using False by simp
    ultimately show ?thesis using False
      by (simp add: vo RequiredDir_def RequiredPins_def a_def DirOf_def nth_append)
  qed
qed

subsection \<open>The rebuilt world\<close>

lemma RebuildPinArray_eq: "RebuildPinArray n w = Some (RebuiltWorld n w)"
proof -
  have c: "w\<lparr>GraphNodes := (GraphNodes w)(n := (GraphNodes w n)\<lparr>Pins := [], InputPins := [], OutputPins := []\<rparr>)\<rparr>
           = ClearPins n w"
    by (simp add: ClearPins_def)
  show ?thesis
    unfolding RebuildPinArray_def Let_def c AllocateDefaultPins_ClearPins
    by (simp add: RewireOldPinsToNewPins_def RebuiltWorld_def RebuildState_def Let_def)
qed

lemma WF_D:
  assumes "PinsWellFormed n w"
  shows "distinct (Pins (GraphNodes w n))"
    and "p \<in> set (Pins (GraphNodes w n)) \<Longrightarrow> p < NextPinRef w"
    and "p \<in> set (Pins (GraphNodes w n)) \<Longrightarrow> t \<in> set (LinkedTo (GraphPins w p)) \<Longrightarrow> t < NextPinRef w"
    and "p \<in> set (Pins (GraphNodes w n)) \<Longrightarrow> t \<in> set (LinkedTo (GraphPins w p)) \<Longrightarrow> t \<notin> set (Pins (GraphNodes w n))"
  using assms unfolding PinsWellFormed_def by blast+

lemma AllocatedWorld_fresh:
  assumes "q \<in> set (Pins (GraphNodes (AllocatedWorld n w) n))"
  shows "NextPinRef w \<le> q" and "q < NextPinRef w + length (RequiredPins n w)"
    and "GraphPins (AllocatedWorld n w) q =
           MakePin (RequiredDir n w (q - NextPinRef w)) (RequiredPins n w ! (q - NextPinRef w))"
proof -
  from assms show a: "NextPinRef w \<le> q" and b: "q < NextPinRef w + length (RequiredPins n w)"
    unfolding AllocatedWorld_Pins by simp_all
  from a b have j: "q - NextPinRef w < length (RequiredPins n w)" by linarith
  from a have e: "NextPinRef w + (q - NextPinRef w) = q" by linarith
  show "GraphPins (AllocatedWorld n w) q =
           MakePin (RequiredDir n w (q - NextPinRef w)) (RequiredPins n w ! (q - NextPinRef w))"
    using AllocatedWorld_new [OF j] unfolding e .
qed

lemma MakePin_fields [simp]:
  "LinkedTo (MakePin Dir d) = []" "EdPinName (MakePin Dir d) = PinName d"
  "bOrphanedPin (MakePin Dir d) = False" "Direction (MakePin Dir d) = Dir"
  "ParentPin (MakePin Dir d) = None" "bWasTrashed (MakePin Dir d) = False"
  by (simp_all add: MakePin_def NewEdGraphPin_def)

lemma Rebuild_ctx:
  assumes wf: "PinsWellFormed n w"
  shows "RewireCtx n (AllocatedWorld n w) (Pins (GraphNodes w n))"
proof -
  have old: "p \<in> set (Pins (GraphNodes w n)) \<Longrightarrow> GraphPins (AllocatedWorld n w) p = GraphPins w p" for p
    by (rule AllocatedWorld_old [OF WF_D(2) [OF wf]])
  have 1: "set (Pins (GraphNodes w n)) \<inter> set (Pins (GraphNodes (AllocatedWorld n w) n)) = {}"
  proof (rule ccontr)
    assume "set (Pins (GraphNodes w n)) \<inter> set (Pins (GraphNodes (AllocatedWorld n w) n)) \<noteq> {}"
    then obtain x where x: "x \<in> set (Pins (GraphNodes w n))" "x \<in> set (Pins (GraphNodes (AllocatedWorld n w) n))"
      by blast
    from WF_D(2) [OF wf x(1)] AllocatedWorld_fresh(1) [OF x(2)] show False by linarith
  qed
  have 2: "\<forall>p \<in> set (Pins (GraphNodes w n)). \<forall>t \<in> set (LinkedTo (GraphPins (AllocatedWorld n w) p)).
            t \<notin> set (Pins (GraphNodes w n)) \<and> t \<notin> set (Pins (GraphNodes (AllocatedWorld n w) n))"
  proof (intro ballI)
    fix p t assume p: "p \<in> set (Pins (GraphNodes w n))"
      and t: "t \<in> set (LinkedTo (GraphPins (AllocatedWorld n w) p))"
    from t have t': "t \<in> set (LinkedTo (GraphPins w p))" unfolding old [OF p] .
    have "t \<notin> set (Pins (GraphNodes (AllocatedWorld n w) n))"
    proof
      assume "t \<in> set (Pins (GraphNodes (AllocatedWorld n w) n))"
      from AllocatedWorld_fresh(1) [OF this] WF_D(3) [OF wf p t'] show False by linarith
    qed
    with WF_D(4) [OF wf p t']
    show "t \<notin> set (Pins (GraphNodes w n)) \<and> t \<notin> set (Pins (GraphNodes (AllocatedWorld n w) n))"
      by blast
  qed
  have 3: "\<forall>q \<in> set (Pins (GraphNodes (AllocatedWorld n w) n)). LinkedTo (GraphPins (AllocatedWorld n w) q) = []"
  proof
    fix q assume "q \<in> set (Pins (GraphNodes (AllocatedWorld n w) n))"
    from AllocatedWorld_fresh(3) [OF this]
    show "LinkedTo (GraphPins (AllocatedWorld n w) q) = []" by simp
  qed
  have 4: "distinct (Pins (GraphNodes (AllocatedWorld n w) n))"
    unfolding AllocatedWorld_Pins by simp
  show ?thesis
    unfolding RewireCtx_def using WF_D(1) [OF wf] 4 1 2 3 by blast
qed

lemma Rebuild_inv:
  "PinsWellFormed n w \<Longrightarrow>
     RewireInv n (AllocatedWorld n w) (Pins (GraphNodes w n)) 0 (RebuildState n w)"
  unfolding RebuildState_def by (rule RewireMatch_inv [OF Rebuild_ctx])

lemma OrphanCondition_Allocated:
  "p < NextPinRef w \<Longrightarrow> OrphanCondition (AllocatedWorld n w) n p = OrphanCondition w n p"
proof -
  assume p: "p < NextPinRef w"
  have po: "PinsOnly n w (AllocatedWorld n w)" by (rule AllocatedWorld_PinsOnly)
  have a: "bOrphanPinsEnabled (AllocatedWorld n w) = bOrphanPinsEnabled w"
    using po by (simp add: PinsOnly_def)
  have "NodeSansPins (GraphNodes (AllocatedWorld n w) n) = NodeSansPins (GraphNodes w n)"
    using po by (simp add: PinsOnly_def)
  then have b: "bDisableOrphanPinSaving (GraphNodes (AllocatedWorld n w) n) = bDisableOrphanPinSaving (GraphNodes w n)"
     "OrphanedPinSaveMode (GraphNodes (AllocatedWorld n w) n) = OrphanedPinSaveMode (GraphNodes w n)"
    unfolding NodeSansPins_eq_iff by simp_all
  show ?thesis
    unfolding OrphanCondition_def a b AllocatedWorld_old [OF p] ..
qed

lemma World_self: "\<exists>h. w = w\<lparr>GraphPins := h\<rparr>"
  by (rule exI [of _ "GraphPins w"]) simp

lemma RewireStep_frame:
  "\<exists>h. RW_World (RewireStep n k i st) = (RW_World st)\<lparr>GraphPins := h\<rparr>"
proof (cases "StepSearch n k i st")
  case None
  show ?thesis
    unfolding RewireStep_unmatched [OF None] using World_self [of "RW_World st"] by auto
next
  case (Some j)
  show ?thesis
    unfolding RewireStep_matched [OF Some] by (simp add: ReconstructSinglePin_def) blast
qed

lemma RewireLoop_frame:
  "\<exists>h. RW_World (RewireLoop n k c st) = (RW_World st)\<lparr>GraphPins := h\<rparr>"
proof (induction c arbitrary: st)
  case 0
  show ?case using World_self [of "RW_World st"] by simp
next
  case (Suc c)
  obtain h1 where h1: "RW_World (RewireStep n k c st) = (RW_World st)\<lparr>GraphPins := h1\<rparr>"
    using RewireStep_frame by blast
  obtain h2 where "RW_World (RewireLoop n k c (RewireStep n k c st)) = (RW_World (RewireStep n k c st))\<lparr>GraphPins := h2\<rparr>"
    using Suc.IH by blast
  then have "RW_World (RewireLoop n k (Suc c) st) = (RW_World st)\<lparr>GraphPins := h2\<rparr>"
    unfolding h1 by simp
  then show ?case by blast
qed

lemma PinsOnly_heap: "PinsOnly n w (w\<lparr>GraphPins := h\<rparr>)"
  by (simp add: PinsOnly_def)

lemma PinsOnly_DoneNode: "PinsOnly n w w' \<Longrightarrow> PinsOnly n (DoneNode n w) (DoneNode n w')"
  by (simp add: PinsOnly_def DoneNode_def NodeSansPins_eq_iff)

lemma RebuiltWorld_PinsOnly: "PinsOnly n (DoneNode n w) (RebuiltWorld n w)"
proof -
  define st where "st = RebuildState n w"
  define w3 where "w3 = fold (PlaceOrphanedPin n) (rev (OrphanedOldPins st)) (RW_World st)"
  obtain h where h: "RW_World st = (AllocatedWorld n w)\<lparr>GraphPins := h\<rparr>"
    using RewireLoop_frame [of n "length (Pins (GraphNodes (AllocatedWorld n w) n))"
        "length (Pins (GraphNodes w n))" "RewireInit n (Pins (GraphNodes w n)) (AllocatedWorld n w)"]
    unfolding st_def RebuildState_def RewireMatch_def by (auto simp: RewireInit_def)
  have 1: "PinsOnly n w (RW_World st)"
    unfolding h by (rule PinsOnly_trans [OF AllocatedWorld_PinsOnly PinsOnly_heap])
  have 2: "PinsOnly n (RW_World st) w3"
    unfolding w3_def using fold_PlaceOrphanedPin_summary by blast
  have 3: "PinsOnly n w3 (fold DestroyOldPin (InOldPins st) w3)"
    unfolding fold_DestroyOldPin by (rule PinsOnly_heap)
  have "PinsOnly n w (fold DestroyOldPin (InOldPins st) w3)"
    by (rule PinsOnly_trans [OF PinsOnly_trans [OF 1 2] 3])
  from PinsOnly_DoneNode [OF this] show ?thesis
    unfolding RebuiltWorld_def Let_def st_def [symmetric] w3_def [symmetric] DoneNode_def .
qed

lemma RebuiltWorld_shape:
  assumes wf: "PinsWellFormed n w"
  defines "st \<equiv> RebuildState n w"
  defines "w2 \<equiv> AllocatedWorld n w"
  defines "Old \<equiv> Pins (GraphNodes w n)"
  shows "GraphPins (RebuiltWorld n w) = DestroyAll (filter (\<lambda>p. \<not> Orphaned w2 n st p) Old) (HeapOf st)"
    and "Pins (GraphNodes (RebuiltWorld n w) n) =
           Pins (GraphNodes w2 n) @ filter (\<lambda>p. ParentPin (HeapOf st p) = None) (filter (Orphaned w2 n st) Old)"
    and "NextPinRef (RebuiltWorld n w) = NextPinRef w2"
proof -
  have inv: "RewireInv n w2 Old 0 st"
    unfolding st_def w2_def Old_def by (rule Rebuild_inv [OF wf])
  have fr: "RW_World st = w2\<lparr>GraphPins := HeapOf st\<rparr>" by (rule InvD_frame [OF inv])
  have io: "InOldPins st = filter (\<lambda>p. \<not> Orphaned w2 n st p) Old"
    using InvD_InOldPins [OF inv] by simp
  have oo: "rev (OrphanedOldPins st) = filter (Orphaned w2 n st) Old"
    using InvD_Orphaned [OF inv] by simp
  define w3 where "w3 = fold (PlaceOrphanedPin n) (filter (Orphaned w2 n st) Old) (RW_World st)"
  note pl = fold_PlaceOrphanedPin_summary [of n "filter (Orphaned w2 n st) Old" "RW_World st"]
  have g3: "GraphPins w3 = HeapOf st" unfolding w3_def HeapOf_def using pl by blast
  have p3: "Pins (GraphNodes w3 n) = Pins (GraphNodes w2 n) @ filter (\<lambda>p. ParentPin (HeapOf st p) = None) (filter (Orphaned w2 n st) Old)"
  proof -
    have "Pins (GraphNodes (RW_World st) n) = Pins (GraphNodes w2 n)" by (subst fr) simp
    then show ?thesis unfolding w3_def HeapOf_def using pl by simp
  qed
  have n3: "NextPinRef w3 = NextPinRef w2"
  proof -
    have "NextPinRef (RW_World st) = NextPinRef w2" by (subst fr) simp
    then show ?thesis unfolding w3_def using pl by simp
  qed
  have rw: "RebuiltWorld n w = DoneNode n (w3\<lparr>GraphPins := DestroyAll (InOldPins st) (GraphPins w3)\<rparr>)"
    unfolding RebuiltWorld_def Let_def st_def [symmetric] oo w3_def [symmetric] fold_DestroyOldPin DoneNode_def ..
  show "GraphPins (RebuiltWorld n w) = DestroyAll (filter (\<lambda>p. \<not> Orphaned w2 n st p) Old) (HeapOf st)"
    unfolding rw io g3 by (simp add: DoneNode_def)
  show "Pins (GraphNodes (RebuiltWorld n w) n) =
           Pins (GraphNodes w2 n) @ filter (\<lambda>p. ParentPin (HeapOf st p) = None) (filter (Orphaned w2 n st) Old)"
    unfolding rw by (simp add: DoneNode_def p3)
  show "NextPinRef (RebuiltWorld n w) = NextPinRef w2"
    unfolding rw by (simp add: DoneNode_def n3)
qed

lemma Orphaned_StaysOrphan:
  assumes wf: "PinsWellFormed n w" and p: "p \<in> set (Pins (GraphNodes w n))"
  shows "Orphaned (AllocatedWorld n w) n (RebuildState n w) p = StaysOrphan n w p"
  unfolding Orphaned_def StaysOrphan_def RebuildMatchedPins_def
    OrphanCondition_Allocated [OF WF_D(2) [OF wf p]] ..

lemma MarkOrphan_fields [simp]:
  "LinkedTo (MarkOrphan pin) = LinkedTo pin" "ParentPin (MarkOrphan pin) = ParentPin pin"
  "EdPinName (MarkOrphan pin) = EdPinName pin" "bOrphanedPin (MarkOrphan pin) = True"
  "bNotConnectable (MarkOrphan pin) = True" "bWasTrashed (MarkOrphan pin) = bWasTrashed pin"
  "bHidden (MarkOrphan pin) = bHidden pin" "bSavePinIfOrphaned (MarkOrphan pin) = bSavePinIfOrphaned pin"
  by (simp_all add: MarkOrphan_def)

lemma Rebuilt_old_heap:
  assumes wf: "PinsWellFormed n w" and p: "p \<in> set (Pins (GraphNodes w n))"
  shows "HeapOf (RebuildState n w) p = (if StaysOrphan n w p then MarkOrphan (GraphPins w p) else GraphPins w p)"
proof -
  have "HeapOf (RebuildState n w) p =
          (if p \<in> set (drop 0 (Pins (GraphNodes w n))) \<and> Orphaned (AllocatedWorld n w) n (RebuildState n w) p
           then MarkOrphan (GraphPins (AllocatedWorld n w) p) else GraphPins (AllocatedWorld n w) p)"
    by (rule InvD_old [OF Rebuild_inv [OF wf] p])
  then show ?thesis
    unfolding Orphaned_StaysOrphan [OF wf p] AllocatedWorld_old [OF WF_D(2) [OF wf p]] using p by simp
qed

lemma Rebuilt_Pins:
  assumes wf: "PinsWellFormed n w"
  shows "Pins (GraphNodes (RebuiltWorld n w) n) =
           [NextPinRef w ..< NextPinRef w + length (RequiredPins n w)]
           @ filter (\<lambda>p. StaysOrphan n w p \<and> ParentPin (GraphPins w p) = None) (Pins (GraphNodes w n))"
proof -
  have "filter (\<lambda>p. ParentPin (HeapOf (RebuildState n w) p) = None)
          (filter (Orphaned (AllocatedWorld n w) n (RebuildState n w)) (Pins (GraphNodes w n)))
        = filter (\<lambda>p. StaysOrphan n w p \<and> ParentPin (GraphPins w p) = None) (Pins (GraphNodes w n))"
    unfolding filter_filter
  proof (rule filter_cong [OF refl])
    fix p assume p: "p \<in> set (Pins (GraphNodes w n))"
    show "(Orphaned (AllocatedWorld n w) n (RebuildState n w) p \<and> ParentPin (HeapOf (RebuildState n w) p) = None)
          = (StaysOrphan n w p \<and> ParentPin (GraphPins w p) = None)"
      unfolding Orphaned_StaysOrphan [OF wf p] Rebuilt_old_heap [OF wf p] by auto
  qed
  then show ?thesis
    unfolding RebuiltWorld_shape(2) [OF wf] AllocatedWorld_Pins by simp
qed

lemma Rebuilt_NextPinRef:
  "PinsWellFormed n w \<Longrightarrow> NextPinRef (RebuiltWorld n w) = NextPinRef w + length (RequiredPins n w)"
  unfolding RebuiltWorld_shape(3) AllocatedWorld_next ..

lemma Rebuilt_heap:
  assumes wf: "PinsWellFormed n w"
  defines "R \<equiv> filter (\<lambda>p. \<not> StaysOrphan n w p) (Pins (GraphNodes w n))"
  defines "h \<equiv> HeapOf (RebuildState n w)"
  shows "GraphPins (RebuiltWorld n w) =
     (\<lambda>x. if x \<in> set R then (h x)\<lparr>LinkedTo := [], bWasTrashed := True\<rparr>
          else (h x)\<lparr>LinkedTo := filter (\<lambda>y. \<not> Severed R h x y) (LinkedTo (h x))\<rparr>)"
proof -
  have Req: "filter (\<lambda>p. \<not> Orphaned (AllocatedWorld n w) n (RebuildState n w) p) (Pins (GraphNodes w n)) = R"
    unfolding R_def by (rule filter_cong [OF refl]) (simp add: Orphaned_StaysOrphan [OF wf])
  have d: "distinct R" unfolding R_def using WF_D(1) [OF wf] by simp
  have l: "\<forall>r \<in> set R. \<forall>t \<in> set (LinkedTo (h r)). t \<notin> set R"
  proof (intro ballI)
    fix r t assume r: "r \<in> set R" and t: "t \<in> set (LinkedTo (h r))"
    have ro: "r \<in> set (Pins (GraphNodes w n))" using r unfolding R_def by simp
    have "t \<in> set (LinkedTo (GraphPins w r))"
      using t unfolding h_def Rebuilt_old_heap [OF wf ro] by (simp split: if_splits)
    from WF_D(4) [OF wf ro this] show "t \<notin> set R" unfolding R_def by simp
  qed
  show ?thesis
    unfolding RebuiltWorld_shape(1) [OF wf] Req h_def [symmetric] by (rule DestroyAll_eq [OF d l])
qed

lemma Rebuilt_not_severed:
  assumes wf: "PinsWellFormed n w"
    and x: "x \<in> set (Pins (GraphNodes w n)) \<or> x \<in> set (Pins (GraphNodes (AllocatedWorld n w) n))"
  shows "\<not> Severed (filter (\<lambda>p. \<not> StaysOrphan n w p) (Pins (GraphNodes w n))) (HeapOf (RebuildState n w)) x y"
proof
  assume "Severed (filter (\<lambda>p. \<not> StaysOrphan n w p) (Pins (GraphNodes w n))) (HeapOf (RebuildState n w)) x y"
  then have y: "y \<in> set (Pins (GraphNodes w n))" and xl: "x \<in> set (LinkedTo (HeapOf (RebuildState n w) y))"
    unfolding Severed_def by simp_all
  have xl': "x \<in> set (LinkedTo (GraphPins (AllocatedWorld n w) y))"
    using xl unfolding Rebuilt_old_heap [OF wf y] AllocatedWorld_old [OF WF_D(2) [OF wf y]]
    by (simp split: if_splits)
  from CtxD(4) [OF Rebuild_ctx [OF wf] y xl'] CtxD(5) [OF Rebuild_ctx [OF wf] y xl'] x
  show False by blast
qed

lemma Rebuilt_kept:
  assumes wf: "PinsWellFormed n w"
    and x: "x \<in> set (Pins (GraphNodes w n)) \<and> StaysOrphan n w x \<or> x \<in> set (Pins (GraphNodes (AllocatedWorld n w) n))"
  shows "GraphPins (RebuiltWorld n w) x = HeapOf (RebuildState n w) x"
proof -
  define R where "R = filter (\<lambda>p. \<not> StaysOrphan n w p) (Pins (GraphNodes w n))"
  have nR: "x \<notin> set R"
  proof
    assume "x \<in> set R"
    then have a: "x \<in> set (Pins (GraphNodes w n))" "\<not> StaysOrphan n w x" unfolding R_def by simp_all
    with x have "x \<in> set (Pins (GraphNodes (AllocatedWorld n w) n))" by blast
    with a(1) CtxD(3) [OF Rebuild_ctx [OF wf]] show False by blast
  qed
  have x': "x \<in> set (Pins (GraphNodes w n)) \<or> x \<in> set (Pins (GraphNodes (AllocatedWorld n w) n))"
    using x by blast
  have "filter (\<lambda>y. \<not> Severed R (HeapOf (RebuildState n w)) x y) (LinkedTo (HeapOf (RebuildState n w) x))
        = LinkedTo (HeapOf (RebuildState n w) x)"
    unfolding R_def using Rebuilt_not_severed [OF wf x'] by simp
  then show ?thesis
    unfolding Rebuilt_heap [OF wf] R_def [symmetric] using nR by simp
qed

lemma Rebuilt_orphan:
  assumes wf: "PinsWellFormed n w" and p: "p \<in> set (Pins (GraphNodes w n))" and o: "StaysOrphan n w p"
  shows "GraphPins (RebuiltWorld n w) p = MarkOrphan (GraphPins w p)"
proof -
  have "GraphPins (RebuiltWorld n w) p = HeapOf (RebuildState n w) p"
    by (rule Rebuilt_kept [OF wf]) (use p o in blast)
  then show ?thesis unfolding Rebuilt_old_heap [OF wf p] using o by simp
qed

lemma Rebuilt_destroyed:
  assumes wf: "PinsWellFormed n w" and p: "p \<in> set (Pins (GraphNodes w n))" and o: "\<not> StaysOrphan n w p"
  shows "GraphPins (RebuiltWorld n w) p = (GraphPins w p)\<lparr>LinkedTo := [], bWasTrashed := True\<rparr>"
    and "t \<in> set (LinkedTo (GraphPins w p)) \<Longrightarrow> p \<notin> set (LinkedTo (GraphPins (RebuiltWorld n w) t))"
proof -
  define R where "R = filter (\<lambda>p. \<not> StaysOrphan n w p) (Pins (GraphNodes w n))"
  have pR: "p \<in> set R" unfolding R_def using p o by simp
  have hp: "HeapOf (RebuildState n w) p = GraphPins w p"
    unfolding Rebuilt_old_heap [OF wf p] using o by simp
  show "GraphPins (RebuiltWorld n w) p = (GraphPins w p)\<lparr>LinkedTo := [], bWasTrashed := True\<rparr>"
    unfolding Rebuilt_heap [OF wf] R_def [symmetric] using pR hp by simp
  assume t: "t \<in> set (LinkedTo (GraphPins w p))"
  have tR: "t \<notin> set R" unfolding R_def using WF_D(4) [OF wf p t] by simp
  have sev: "Severed R (HeapOf (RebuildState n w)) t p"
    unfolding Severed_def hp using pR t by simp
  show "p \<notin> set (LinkedTo (GraphPins (RebuiltWorld n w) t))"
    unfolding Rebuilt_heap [OF wf] R_def [symmetric] using tR sev by simp
qed

lemma Rebuilt_matched:
  assumes wf: "PinsWellFormed n w" and m: "RebuildMatchedPins n w p = Some q"
  shows "p \<in> set (Pins (GraphNodes w n))"
    and "q \<in> set (Pins (GraphNodes (RebuiltWorld n w) n))"
    and "NextPinRef w \<le> q"
    and "LinkedTo (GraphPins (RebuiltWorld n w) q) = LinkedTo (GraphPins w p)"
    and "EdPinName (GraphPins (RebuiltWorld n w) q) = EdPinName (GraphPins w p)"
    and "t \<in> set (LinkedTo (GraphPins w p)) \<Longrightarrow> q \<in> set (LinkedTo (GraphPins (RebuiltWorld n w) t))"
    and "GraphPins (RebuiltWorld n w) p = (GraphPins w p)\<lparr>LinkedTo := [], bWasTrashed := True\<rparr>"
    and "t \<in> set (LinkedTo (GraphPins w p)) \<Longrightarrow> p \<notin> set (LinkedTo (GraphPins (RebuiltWorld n w) t))"
proof -
  define st where "st = RebuildState n w"
  define w2 where "w2 = AllocatedWorld n w"
  define R where "R = filter (\<lambda>p. \<not> StaysOrphan n w p) (Pins (GraphNodes w n))"
  have inv: "RewireInv n w2 (Pins (GraphNodes w n)) 0 st"
    unfolding st_def w2_def by (rule Rebuild_inv [OF wf])
  have m': "MatchedPins st p = Some q" using m unfolding RebuildMatchedPins_def st_def .
  note im = InvD_matched [OF inv m']
  show p: "p \<in> set (Pins (GraphNodes w n))" using im(1) by simp
  have qn: "q \<in> set (Pins (GraphNodes w2 n))" using im(2) by auto
  then have qn': "q \<in> set [NextPinRef w ..< NextPinRef w + length (RequiredPins n w)]"
    unfolding w2_def AllocatedWorld_Pins .
  then show "q \<in> set (Pins (GraphNodes (RebuiltWorld n w) n))"
    unfolding Rebuilt_Pins [OF wf] by simp
  show "NextPinRef w \<le> q" using qn' by simp
  have old: "GraphPins w2 p = GraphPins w p"
    unfolding w2_def by (rule AllocatedWorld_old [OF WF_D(2) [OF wf p]])
  have kept: "GraphPins (RebuiltWorld n w) q = HeapOf st q"
    unfolding st_def by (rule Rebuilt_kept [OF wf]) (use qn w2_def in blast)
  show "LinkedTo (GraphPins (RebuiltWorld n w) q) = LinkedTo (GraphPins w p)"
    unfolding kept im(3) old ..
  have "SansLinks (HeapOf st q) = SansLinks (GraphPins w2 q)" by (rule InvD_new [OF inv qn])
  from SansLinks_fields [OF this] have "EdPinName (HeapOf st q) = EdPinName (GraphPins w2 q)" by blast
  then show "EdPinName (GraphPins (RebuiltWorld n w) q) = EdPinName (GraphPins w p)"
    unfolding kept using im(4) old by simp
  have no: "\<not> StaysOrphan n w p" unfolding StaysOrphan_def using m by simp
  show "GraphPins (RebuiltWorld n w) p = (GraphPins w p)\<lparr>LinkedTo := [], bWasTrashed := True\<rparr>"
    by (rule Rebuilt_destroyed(1) [OF wf p no])
  show "p \<notin> set (LinkedTo (GraphPins (RebuiltWorld n w) t))" if t: "t \<in> set (LinkedTo (GraphPins w p))"
    by (rule Rebuilt_destroyed(2) [OF wf p no t])
  show "q \<in> set (LinkedTo (GraphPins (RebuiltWorld n w) t))" if t: "t \<in> set (LinkedTo (GraphPins w p))"
  proof -
    have t2: "t \<in> set (LinkedTo (GraphPins w2 p))" using t unfolding old .
    have qt: "q \<in> set (LinkedTo (HeapOf st t))" using im(5) t2 by blast
    have tR: "t \<notin> set R" unfolding R_def using WF_D(4) [OF wf p t] by simp
    have qR: "q \<notin> set R"
    proof
      assume "q \<in> set R"
      then have "q \<in> set (Pins (GraphNodes w n))" unfolding R_def by simp
      from CtxD(3) [OF Rebuild_ctx [OF wf] this] qn show False unfolding w2_def by blast
    qed
    have ns: "\<not> Severed R (HeapOf st) t q" unfolding Severed_def using qR by simp
    show ?thesis
      unfolding Rebuilt_heap [OF wf] R_def [symmetric] st_def [symmetric] using tR qt ns by simp
  qed
qed

lemma Rebuilt_new:
  assumes wf: "PinsWellFormed n w" and j: "j < length (RequiredPins n w)"
  shows "EdPinName (GraphPins (RebuiltWorld n w) (NextPinRef w + j)) = PinName (RequiredPins n w ! j)"
    and "bOrphanedPin (GraphPins (RebuiltWorld n w) (NextPinRef w + j)) = False"
    and "Direction (GraphPins (RebuiltWorld n w) (NextPinRef w + j)) = RequiredDir n w j"
    and "bWasTrashed (GraphPins (RebuiltWorld n w) (NextPinRef w + j)) = False"
proof -
  define q where "q = NextPinRef w + j"
  have qn: "q \<in> set (Pins (GraphNodes (AllocatedWorld n w) n))"
    unfolding AllocatedWorld_Pins q_def using j by simp
  have kept: "GraphPins (RebuiltWorld n w) q = HeapOf (RebuildState n w) q"
    by (rule Rebuilt_kept [OF wf]) (use qn in blast)
  have "SansLinks (HeapOf (RebuildState n w) q) = SansLinks (GraphPins (AllocatedWorld n w) q)"
    by (rule InvD_new [OF Rebuild_inv [OF wf] qn])
  note f = SansLinks_fields [OF this, unfolded kept [symmetric]]
  have mk: "GraphPins (AllocatedWorld n w) (NextPinRef w + j) = MakePin (RequiredDir n w j) (RequiredPins n w ! j)"
    by (rule AllocatedWorld_new [OF j])
  show "EdPinName (GraphPins (RebuiltWorld n w) (NextPinRef w + j)) = PinName (RequiredPins n w ! j)"
    and "bOrphanedPin (GraphPins (RebuiltWorld n w) (NextPinRef w + j)) = False"
    and "Direction (GraphPins (RebuiltWorld n w) (NextPinRef w + j)) = RequiredDir n w j"
    and "bWasTrashed (GraphPins (RebuiltWorld n w) (NextPinRef w + j)) = False"
    using f unfolding q_def by (simp_all add: mk)
qed

subsection \<open>Reconstruction as a whole\<close>

lemma EnsureReport_eq:
  "EnsureReport msg w =
     w\<lparr>Trace := Trace w @ (if EnsureFailed msg \<in> set (Trace w) then [] else [EnsureFailed msg])\<rparr>"
  by (simp add: EnsureReport_def)

lemma GuardAborts_guard: "GuardAborts n w \<Longrightarrow> ReconstructGuard n w"
  by (simp add: GuardAborts_def ReconstructGuard_def)

lemma CanReconstructNode_eq:
  "\<not> GuardAborts n w \<Longrightarrow>
     CanReconstructNode n w =
       Some (\<not> ReconstructGuard n w, w\<lparr>Trace := Trace w @ GuardDiagnostics n w\<rparr>)"
  unfolding CanReconstructNode_def ReconstructGuard_def GuardDiagnostics_def GuardAborts_def Let_def
    EnsureReport_eq
  by (auto simp: GetFlowGraph_def GetFlowAsset_def IsValidGraph_def split: option.splits)

lemma CanReconstructNode_aborts: "GuardAborts n w \<Longrightarrow> CanReconstructNode n w = None"
  unfolding CanReconstructNode_def GuardAborts_def Let_def
  by (cases "GetFlowAsset (GraphNodes w n)") auto

lemma ReconstructNode_aborts: "GuardAborts n w \<Longrightarrow> ReconstructNode n w = None"
  by (simp add: ReconstructNode_def CanReconstructNode_aborts)

lemma ReconstructNode_guarded:
  "ReconstructGuard n w \<Longrightarrow> \<not> GuardAborts n w \<Longrightarrow>
     ReconstructNode n w = Some (w\<lparr>Trace := Trace w @ GuardDiagnostics n w\<rparr>)"
  by (simp add: ReconstructNode_def CanReconstructNode_eq)

lemma ReconstructNode_guarded_Some:
  assumes g: "ReconstructGuard n w" and r: "ReconstructNode n w = Some w'"
  shows "\<not> GuardAborts n w" and "w' = w\<lparr>Trace := Trace w @ GuardDiagnostics n w\<rparr>"
proof -
  show a: "\<not> GuardAborts n w" using r ReconstructNode_aborts [of n w] by auto
  show "w' = w\<lparr>Trace := Trace w @ GuardDiagnostics n w\<rparr>"
    using r unfolding ReconstructNode_guarded [OF g a] by simp
qed

lemma GuardDiagnostics_pass: "\<not> ReconstructGuard n w \<Longrightarrow> GuardDiagnostics n w = []"
  by (auto simp: ReconstructGuard_def GuardDiagnostics_def)

lemma TryUpdateAutoDataPins_total:
  "NodeInstance (GraphNodes w n) \<noteq> None \<Longrightarrow>
     \<exists>b insts. TryUpdateAutoDataPins n w = Some (b, w\<lparr>NodeInstances := insts\<rparr>)"
proof -
  assume "NodeInstance (GraphNodes w n) \<noteq> None"
  then obtain i where i: "NodeInstance (GraphNodes w n) = Some i" by blast
  have self: "\<exists>insts. w = w\<lparr>NodeInstances := insts\<rparr>"
    by (rule exI [of _ "NodeInstances w"]) simp
  show ?thesis
    unfolding TryUpdateAutoDataPins_def i using self
    by (auto simp: Let_def split: option.splits prod.splits)
qed

lemma TryUpdateNodePins_total:
  "OwnerGraph (GraphNodes w n) \<noteq> None \<Longrightarrow>
     \<exists>b insts. TryUpdateNodePins n w = Some (b, w\<lparr>NodeInstances := insts\<rparr>)"
proof -
  assume "OwnerGraph (GraphNodes w n) \<noteq> None"
  then obtain g where g: "GetFlowGraph (GraphNodes w n) = Some g" unfolding GetFlowGraph_def by blast
  have self: "\<exists>insts. w = w\<lparr>NodeInstances := insts\<rparr>"
    by (rule exI [of _ "NodeInstances w"]) simp
  show ?thesis
    unfolding TryUpdateNodePins_def Let_def g using self
    by (auto split: option.splits)
qed

lemma Guard_pass_D:
  assumes "\<not> ReconstructGuard n w"
  shows "NodeInstance (GraphNodes w n) \<noteq> None" and "OwnerGraph (GraphNodes w n) \<noteq> None"
  using assms unfolding ReconstructGuard_def IsValidInstance_def IsValidGraph_def
  by (auto split: option.splits)

lemma Prepared_frame:
  assumes g: "\<not> ReconstructGuard n w"
  shows "\<exists>insts. Prepared n w = (SetReconstructing n True w)\<lparr>NodeInstances := insts\<rparr>"
    and "TryUpdateAutoDataPins n (SetReconstructing n True w) \<noteq> None"
    and "TryUpdateNodePins n (snd (the (TryUpdateAutoDataPins n (SetReconstructing n True w)))) \<noteq> None"
proof -
  define w1 where "w1 = SetReconstructing n True w"
  have ni: "NodeInstance (GraphNodes w1 n) \<noteq> None" and og: "OwnerGraph (GraphNodes w1 n) \<noteq> None"
    unfolding w1_def SetReconstructing_def using Guard_pass_D [OF g] by simp_all
  from TryUpdateAutoDataPins_total [OF ni] obtain b2 i2 where
    r2: "TryUpdateAutoDataPins n w1 = Some (b2, w1\<lparr>NodeInstances := i2\<rparr>)" by blast
  have og2: "OwnerGraph (GraphNodes (w1\<lparr>NodeInstances := i2\<rparr>) n) \<noteq> None" using og by simp
  from TryUpdateNodePins_total [OF og2] obtain b3 i3 where
    r3: "TryUpdateNodePins n (w1\<lparr>NodeInstances := i2\<rparr>) = Some (b3, w1\<lparr>NodeInstances := i2\<rparr>\<lparr>NodeInstances := i3\<rparr>)"
    by blast
  have "Prepared n w = w1\<lparr>NodeInstances := i3\<rparr>"
    unfolding Prepared_def Let_def w1_def [symmetric] r2 by (simp add: r3)
  then show "\<exists>insts. Prepared n w = (SetReconstructing n True w)\<lparr>NodeInstances := insts\<rparr>"
    unfolding w1_def by blast
  show "TryUpdateAutoDataPins n (SetReconstructing n True w) \<noteq> None"
    unfolding w1_def [symmetric] r2 by simp
  show "TryUpdateNodePins n (snd (the (TryUpdateAutoDataPins n (SetReconstructing n True w)))) \<noteq> None"
    unfolding w1_def [symmetric] r2 by (simp add: r3)
qed

lemma ReconstructNode_pass:
  assumes g: "\<not> ReconstructGuard n w"
  shows "ReconstructNode n w =
           Some (Finish n (if RequiresReconstruction n w then RebuiltWorld n (Prepared n w)
                           else Prepared n w))"
proof -
  define w1 where "w1 = SetReconstructing n True w"
  from Prepared_frame(2) [OF g] obtain b2 w2 where r2: "TryUpdateAutoDataPins n w1 = Some (b2, w2)"
    unfolding w1_def by (cases "TryUpdateAutoDataPins n (SetReconstructing n True w)") auto
  from Prepared_frame(3) [OF g] obtain b3 w3 where r3: "TryUpdateNodePins n w2 = Some (b3, w3)"
    unfolding w1_def [symmetric] r2 by (cases "TryUpdateNodePins n w2") auto
  have p: "Prepared n w = w3" unfolding Prepared_def Let_def w1_def [symmetric] r2 by (simp add: r3)
  have q: "RequiresReconstruction n w =
        (bNeedsFullReconstruction (GraphNodes w3 n) \<or> b2 \<or> b3 \<or> \<not> CheckGraphPinsMatchNodePins n w3)"
    unfolding RequiresReconstruction_def Let_def w1_def [symmetric] r2 by (simp add: r3)
  have w0: "w\<lparr>Trace := Trace w @ GuardDiagnostics n w\<rparr> = w"
    unfolding GuardDiagnostics_pass [OF g] by simp
  have na: "\<not> GuardAborts n w" using g GuardAborts_guard by blast
  show ?thesis
    unfolding ReconstructNode_def CanReconstructNode_eq [OF na] w0 p q
    using g by (simp add: w1_def [symmetric] r2 r3 RebuildPinArray_eq Finish_def)
qed

subsection \<open>Frames of the preparation and of the completion\<close>

lemma Prepared_fields:
  assumes g: "\<not> ReconstructGuard n w"
  shows "GraphPins (Prepared n w) = GraphPins w"
    and "Pins (GraphNodes (Prepared n w) n) = Pins (GraphNodes w n)"
    and "NextPinRef (Prepared n w) = NextPinRef w"
    and "Trace (Prepared n w) = Trace w"
    and "PinsWellFormed n (Prepared n w) = PinsWellFormed n w"
    and "OrphanCondition (Prepared n w) n p = OrphanCondition w n p"
proof -
  from Prepared_frame(1) [OF g] obtain insts where
    e: "Prepared n w = (SetReconstructing n True w)\<lparr>NodeInstances := insts\<rparr>" by blast
  show "GraphPins (Prepared n w) = GraphPins w" unfolding e by (simp add: SetReconstructing_def)
  show "Pins (GraphNodes (Prepared n w) n) = Pins (GraphNodes w n)"
    unfolding e by (simp add: SetReconstructing_def)
  show "NextPinRef (Prepared n w) = NextPinRef w" unfolding e by (simp add: SetReconstructing_def)
  show "Trace (Prepared n w) = Trace w" unfolding e by (simp add: SetReconstructing_def)
  show "PinsWellFormed n (Prepared n w) = PinsWellFormed n w"
    unfolding e PinsWellFormed_def by (simp add: SetReconstructing_def)
  show "OrphanCondition (Prepared n w) n p = OrphanCondition w n p"
    unfolding e OrphanCondition_def by (simp add: SetReconstructing_def)
qed

lemma Finish_fields:
  shows "GraphPins (Finish n w) = GraphPins w"
    and "Pins (GraphNodes (Finish n w) n) = Pins (GraphNodes w n)"
    and "NextPinRef (Finish n w) = NextPinRef w"
    and "Trace (Finish n w) = Trace w @ [ReconstructNodeCompleted n]"
    and "NodeInstances (Finish n w) = NodeInstances w"
  by (simp_all add: Finish_def SetReconstructing_def)

lemma RebuiltWorld_Trace: "Trace (RebuiltWorld n w) = Trace w"
  using RebuiltWorld_PinsOnly [of n w] by (simp add: PinsOnly_def DoneNode_def)

lemma Rebuilt_matched_fresh:
  assumes wf: "PinsWellFormed n w" and m: "RebuildMatchedPins n w p = Some q"
  shows "\<exists>j < length (RequiredPins n w).
           q = NextPinRef w + j \<and> PinName (RequiredPins n w ! j) = EdPinName (GraphPins w p)"
proof -
  have q: "q \<in> set (Pins (GraphNodes (RebuiltWorld n w) n))" and le: "NextPinRef w \<le> q"
    and nm: "EdPinName (GraphPins (RebuiltWorld n w) q) = EdPinName (GraphPins w p)"
    using Rebuilt_matched(2,3,5) [OF wf m] by blast+
  have old: "\<And>x. x \<in> set (Pins (GraphNodes w n)) \<Longrightarrow> x < NextPinRef w"
    using wf unfolding PinsWellFormed_def by blast
  from q have "q \<in> set [NextPinRef w ..< NextPinRef w + length (RequiredPins n w)]"
    unfolding Rebuilt_Pins [OF wf] using le old by fastforce
  then have lt: "q - NextPinRef w < length (RequiredPins n w)" and e: "NextPinRef w + (q - NextPinRef w) = q"
    using le by auto
  have "PinName (RequiredPins n w ! (q - NextPinRef w)) = EdPinName (GraphPins w p)"
    using Rebuilt_new(1) [OF wf lt] nm unfolding e by simp
  with lt e show ?thesis by metis
qed

lemma Unmatched_if_name_absent:
  assumes wf: "PinsWellFormed n w"
    and a: "EdPinName (GraphPins w p) \<notin> PinName ` set (RequiredPins n w)"
  shows "RebuildMatchedPins n w p = None"
proof (cases "RebuildMatchedPins n w p")
  case None then show ?thesis .
next
  case (Some q)
  from Rebuilt_matched_fresh [OF wf Some] obtain j where
    "j < length (RequiredPins n w)" "PinName (RequiredPins n w ! j) = EdPinName (GraphPins w p)"
    by blast
  then have "EdPinName (GraphPins w p) \<in> PinName ` set (RequiredPins n w)"
    by (metis imageI nth_mem)
  with a show ?thesis by blast
qed

subsection \<open>The guard\<close>

lemma ReconstructNode_guard_returns:
  assumes "ReconstructGuard n w" and "\<not> GuardAborts n w"
  shows "\<exists>w'. ReconstructNode n w = Some w'
           \<and> GraphNodes w' = GraphNodes w \<and> GraphPins w' = GraphPins w
           \<and> NodeInstances w' = NodeInstances w \<and> NextPinRef w' = NextPinRef w"
  unfolding ReconstructNode_guarded [OF assms] by simp

text \<open>
  C4. The guard precondition "the node instance is invalid" does not always end in a
  return. When no transaction is in progress, the node is neither being reconstructed nor
  being destroyed, its node instance is invalid, and it lies on no graph or on a graph
  without Flow asset, the call aborts while it builds the message of the failed
  \<^verbatim>\<open>ensureMsgf\<close>. In \<open>DetachedWorld\<close> node \<open>0\<close> has no node instance and no graph, in
  \<open>NoAssetWorld\<close> it has no node instance and its graph has no Flow asset.
\<close>

theorem ReconstructNode_guard_aborts:
  assumes "\<not> GIsTransacting w" and "\<not> bIsReconstructingNode (GraphNodes w n)"
    and "\<not> bIsDestroyingNode (GraphNodes w n)"
    and "\<not> IsValidInstance w (NodeInstance (GraphNodes w n))"
    and "GetFlowAsset (GraphNodes w n) \<noteq> Some True"
  shows "ReconstructNode n w = None"
proof -
  have "GuardAborts n w" using assms by (simp add: GuardAborts_def)
  then show ?thesis by (rule ReconstructNode_aborts)
qed

theorem ReconstructNode_guard_aborts_witness:
  "\<not> IsValidInstance DetachedWorld (NodeInstance (GraphNodes DetachedWorld 0))
   \<and> OwnerGraph (GraphNodes DetachedWorld 0) = None
   \<and> ReconstructNode 0 DetachedWorld = None
   \<and> \<not> IsValidInstance NoAssetWorld (NodeInstance (GraphNodes NoAssetWorld 0))
   \<and> GetFlowAsset (GraphNodes NoAssetWorld 0) = Some False
   \<and> ReconstructNode 0 NoAssetWorld = None"
proof -
  have a: "\<not> GIsTransacting DetachedWorld" "\<not> bIsReconstructingNode (GraphNodes DetachedWorld 0)"
    "\<not> bIsDestroyingNode (GraphNodes DetachedWorld 0)"
    "\<not> IsValidInstance DetachedWorld (NodeInstance (GraphNodes DetachedWorld 0))"
    "OwnerGraph (GraphNodes DetachedWorld 0) = None"
    "GetFlowAsset (GraphNodes DetachedWorld 0) \<noteq> Some True"
    by (simp_all add: DetachedWorld_def ExWorld_def ExNode_def IsValidInstance_def
        GetFlowAsset_def GetFlowGraph_def)
  have b: "\<not> GIsTransacting NoAssetWorld" "\<not> bIsReconstructingNode (GraphNodes NoAssetWorld 0)"
    "\<not> bIsDestroyingNode (GraphNodes NoAssetWorld 0)"
    "\<not> IsValidInstance NoAssetWorld (NodeInstance (GraphNodes NoAssetWorld 0))"
    "GetFlowAsset (GraphNodes NoAssetWorld 0) = Some False"
    by (simp_all add: NoAssetWorld_def ExWorld_def ExNode_def ExGraph_def IsValidInstance_def
        GetFlowAsset_def GetFlowGraph_def)
  have b': "GetFlowAsset (GraphNodes NoAssetWorld 0) \<noteq> Some True" unfolding b(5) by simp
  from ReconstructNode_guard_aborts [OF a(1,2,3,4,6)]
    ReconstructNode_guard_aborts [OF b(1,2,3,4) b'] a(4,5) b(4,5)
  show ?thesis by blast
qed

subsection \<open>The completion event\<close>

text \<open>
  C5 (amended). A call of \<^verbatim>\<open>ReconstructNode\<close> that passes the guard returns, whether or not
  it rebuilds the pin array, and fires \<^verbatim>\<open>OnReconstructNodeCompleted\<close> exactly once, as the
  last event of the call. A call that the guard stops and that does not abort in the
  message of a failed \<^verbatim>\<open>ensureMsgf\<close> returns without firing it: it leaves at most the
  report of the failed \<^verbatim>\<open>ensureMsgf\<close>.
\<close>

theorem ReconstructNode_completed_event:
  "(\<not> ReconstructGuard n w \<longrightarrow>
      (\<exists>w'. ReconstructNode n w = Some w' \<and> Trace w' = Trace w @ [ReconstructNodeCompleted n]))
   \<and> (ReconstructGuard n w \<longrightarrow> \<not> GuardAborts n w \<longrightarrow>
      (\<exists>w'. ReconstructNode n w = Some w' \<and> Trace w' = Trace w @ GuardDiagnostics n w
            \<and> ReconstructNodeCompleted n \<notin> set (GuardDiagnostics n w)))"
proof (intro conjI impI)
  assume g: "\<not> ReconstructGuard n w"
  show "\<exists>w'. ReconstructNode n w = Some w' \<and> Trace w' = Trace w @ [ReconstructNodeCompleted n]"
    unfolding ReconstructNode_pass [OF g]
    by (simp add: Finish_fields RebuiltWorld_Trace Prepared_fields(4) [OF g])
next
  assume g: "ReconstructGuard n w" and a: "\<not> GuardAborts n w"
  have "ReconstructNodeCompleted n \<notin> set (GuardDiagnostics n w)"
    by (simp add: GuardDiagnostics_def)
  then show "\<exists>w'. ReconstructNode n w = Some w' \<and> Trace w' = Trace w @ GuardDiagnostics n w
            \<and> ReconstructNodeCompleted n \<notin> set (GuardDiagnostics n w)"
    unfolding ReconstructNode_guarded [OF g a] by simp
qed

theorem ReconstructNode_completed_event_witness:
  "\<not> ReconstructGuard 0 BranchWorld
   \<and> (\<exists>w'. ReconstructNode 0 BranchWorld = Some w'
            \<and> Trace w' = Trace BranchWorld @ [ReconstructNodeCompleted 0])
   \<and> ReconstructGuard 0 TransactingWorld \<and> \<not> GuardAborts 0 TransactingWorld
   \<and> (\<exists>w'. ReconstructNode 0 TransactingWorld = Some w' \<and> Trace w' = Trace TransactingWorld)"
proof -
  have g: "\<not> ReconstructGuard 0 BranchWorld"
    by (simp add: ReconstructGuard_def BranchWorld_def ExWorld_def ExNode_def ExGraph_def
        ExInstance_def IsValidInstance_def IsValidGraph_def)
  have t: "ReconstructGuard 0 TransactingWorld"
    by (simp add: ReconstructGuard_def TransactingWorld_def)
  have a: "\<not> GuardAborts 0 TransactingWorld"
    by (simp add: GuardAborts_def TransactingWorld_def)
  have d: "GuardDiagnostics 0 TransactingWorld = []"
    by (simp add: GuardDiagnostics_def TransactingWorld_def)
  from g t a ReconstructNode_completed_event [of 0 BranchWorld]
    ReconstructNode_completed_event [of 0 TransactingWorld]
  show ?thesis unfolding d by simp
qed

text \<open>
  C5 as stated fails: while a transaction is in progress the call returns at the guard and
  the trace stays empty.
\<close>

theorem ReconstructNode_guarded_fires_nothing:
  "ReconstructNode 0 TransactingWorld = Some TransactingWorld \<and> Trace TransactingWorld = []"
  by (simp add: ReconstructNode_def CanReconstructNode_def TransactingWorld_def BranchWorld_def
      ExWorld_def)

subsection \<open>Orphaned pins\<close>

text \<open>
  C3 (amended). Let an old pin be left unmatched by the rewire pass of a full rebuild of the
  pin array. If orphan retention is enabled globally, the node has not disabled orphan
  saving, its save mode is \<^verbatim>\<open>SaveAll\<close>, the pin is not hidden, its type saves it when
  orphaned and it has a connection, the pin is flagged orphaned and not connectable and
  keeps its connections; it is appended to the pin sequence, after all freshly allocated
  pins, if and only if it has moreover no parent pin. Otherwise its connections are
  severed on both sides and it is destroyed. The pin sequence after the rebuild is the
  fresh pins followed by the retained old pins that have no parent pin, in their old order.
\<close>

theorem RebuildPinArray_orphan_retention:
  assumes wf: "PinsWellFormed n w"
    and p: "p \<in> set (Pins (GraphNodes w n))"
    and u: "RebuildMatchedPins n w p = None"
  shows "\<exists>w'. RebuildPinArray n w = Some w'
     \<and> Pins (GraphNodes w' n) =
          [NextPinRef w ..< NextPinRef w']
          @ filter (\<lambda>x. RebuildMatchedPins n w x = None \<and> OrphanCondition w n x
                        \<and> ParentPin (GraphPins w x) = None) (Pins (GraphNodes w n))
     \<and> (p \<in> set (Pins (GraphNodes w' n))
          \<longleftrightarrow> OrphanCondition w n p \<and> ParentPin (GraphPins w p) = None)
     \<and> (OrphanCondition w n p \<longrightarrow>
          GraphPins w' p = (GraphPins w p)\<lparr>bOrphanedPin := True, bNotConnectable := True\<rparr>)
     \<and> (\<not> OrphanCondition w n p \<longrightarrow>
          GraphPins w' p = (GraphPins w p)\<lparr>LinkedTo := [], bWasTrashed := True\<rparr>
          \<and> (\<forall>t \<in> set (LinkedTo (GraphPins w p)). p \<notin> set (LinkedTo (GraphPins w' t))))"
proof -
  define w' where "w' = RebuiltWorld n w"
  have r: "RebuildPinArray n w = Some w'" unfolding w'_def by (rule RebuildPinArray_eq)
  have nx: "NextPinRef w' = NextPinRef w + length (RequiredPins n w)"
    unfolding w'_def by (rule Rebuilt_NextPinRef [OF wf])
  have so: "StaysOrphan n w p \<longleftrightarrow> OrphanCondition w n p" using u by (simp add: StaysOrphan_def)
  have f: "filter (\<lambda>p. StaysOrphan n w p \<and> ParentPin (GraphPins w p) = None) (Pins (GraphNodes w n))
         = filter (\<lambda>x. RebuildMatchedPins n w x = None \<and> OrphanCondition w n x
                        \<and> ParentPin (GraphPins w x) = None) (Pins (GraphNodes w n))"
    by (rule filter_cong [OF refl]) (simp add: StaysOrphan_def)
  have pins: "Pins (GraphNodes w' n) =
          [NextPinRef w ..< NextPinRef w']
          @ filter (\<lambda>x. RebuildMatchedPins n w x = None \<and> OrphanCondition w n x
                        \<and> ParentPin (GraphPins w x) = None) (Pins (GraphNodes w n))"
    unfolding w'_def Rebuilt_Pins [OF wf] f Rebuilt_NextPinRef [OF wf] ..
  have lt: "p < NextPinRef w" using wf p unfolding PinsWellFormed_def by blast
  have mem: "p \<in> set (Pins (GraphNodes w' n))
          \<longleftrightarrow> OrphanCondition w n p \<and> ParentPin (GraphPins w p) = None"
    unfolding pins using lt p u by auto
  have keep: "OrphanCondition w n p \<longrightarrow>
          GraphPins w' p = (GraphPins w p)\<lparr>bOrphanedPin := True, bNotConnectable := True\<rparr>"
    using Rebuilt_orphan [OF wf p] so unfolding w'_def MarkOrphan_def by blast
  have drop1: "\<not> OrphanCondition w n p \<longrightarrow>
          GraphPins w' p = (GraphPins w p)\<lparr>LinkedTo := [], bWasTrashed := True\<rparr>"
    using Rebuilt_destroyed(1) [OF wf p] so unfolding w'_def by blast
  have drop2: "\<not> OrphanCondition w n p \<longrightarrow>
          (\<forall>t \<in> set (LinkedTo (GraphPins w p)). p \<notin> set (LinkedTo (GraphPins w' t)))"
    using Rebuilt_destroyed(2) [OF wf p] so unfolding w'_def by blast
  from r pins mem keep drop1 drop2 show ?thesis by blast
qed

theorem RebuildPinArray_orphan_retention_witness:
  "PinsWellFormed 0 BranchWorld \<and> 3 \<in> set (Pins (GraphNodes BranchWorld 0))
   \<and> RebuildMatchedPins 0 BranchWorld 3 = None \<and> OrphanCondition BranchWorld 0 3
   \<and> ParentPin (GraphPins BranchWorld 3) = None
   \<and> (\<exists>w'. RebuildPinArray 0 BranchWorld = Some w'
            \<and> 3 \<in> set (Pins (GraphNodes w' 0))
            \<and> GraphPins w' 3 = (GraphPins BranchWorld 3)\<lparr>bOrphanedPin := True, bNotConnectable := True\<rparr>)"
proof -
  have wf: "PinsWellFormed 0 BranchWorld"
    by (simp add: PinsWellFormed_def BranchWorld_def ExWorld_def ExNode_def BranchPins_def ExPin_def)
  have p: "3 \<in> set (Pins (GraphNodes BranchWorld 0))"
    by (simp add: BranchWorld_def ExWorld_def ExNode_def)
  have u: "RebuildMatchedPins 0 BranchWorld 3 = None"
    by code_simp
  have o: "OrphanCondition BranchWorld 0 3"
    by (simp add: OrphanCondition_def BranchWorld_def ExWorld_def ExNode_def BranchPins_def
        ExPin_def NewEdGraphPin_def)
  have pp: "ParentPin (GraphPins BranchWorld 3) = None"
    by (simp add: BranchWorld_def ExWorld_def BranchPins_def ExPin_def NewEdGraphPin_def)
  from RebuildPinArray_orphan_retention [OF wf p u] wf p u o pp show ?thesis by blast
qed

text \<open>
  C3 as stated fails: in \<open>SubPinWorld\<close> pin \<open>3\<close> is unmatched and meets the six conditions,
  but it has a parent pin; it is flagged and keeps its connection, yet it is not in the
  pin sequence after the rebuild.
\<close>

theorem RebuildPinArray_sub_pin_not_appended:
  "OrphanCondition SubPinWorld 0 3
   \<and> RebuildMatchedPins 0 SubPinWorld 3 = None
   \<and> RebuildPinArray 0 SubPinWorld \<noteq> None
   \<and> Pins (GraphNodes (the (RebuildPinArray 0 SubPinWorld)) 0) = [20, 21, 22]
   \<and> bOrphanedPin (GraphPins (the (RebuildPinArray 0 SubPinWorld)) 3)
   \<and> LinkedTo (GraphPins (the (RebuildPinArray 0 SubPinWorld)) 3) = [12]"
  by code_simp

subsection \<open>The node instance during a reconstruction\<close>

lemma SetInst_same: "SetInst i (NodeInstances w i) w = w"
  by (simp add: SetInst_def)

lemma SetInst_SetInst: "SetInst i b (SetInst i a w) = SetInst i b w"
  by (simp add: SetInst_def)

lemma SetInst_fields:
  shows "GraphNodes (SetInst i a w) = GraphNodes w"
    and "GraphPins (SetInst i a w) = GraphPins w"
    and "NextPinRef (SetInst i a w) = NextPinRef w"
    and "Trace (SetInst i a w) = Trace w"
    and "NodeInstances (SetInst i a w) i = a"
    and "j \<noteq> i \<Longrightarrow> NodeInstances (SetInst i a w) j = NodeInstances w j"
    and "TryUpdateManagedFlowPinsForNode (SetInst i a w) = TryUpdateManagedFlowPinsForNode w"
    and "GIsTransacting (SetInst i a w) = GIsTransacting w"
    and "bOrphanPinsEnabled (SetInst i a w) = bOrphanPinsEnabled w"
  by (simp_all add: SetInst_def)

lemma TryUpdateAutoDataPins_eq:
  assumes i: "NodeInstance (GraphNodes w n) = Some i"
  shows "TryUpdateAutoDataPins n w =
           Some (AutoDataChanged w (NodeInstances w i), SetInst i (AutoDataInst w (NodeInstances w i)) w)"
proof (cases "InstanceClass (NodeInstances w i) = UFlowNode_Class \<and> bHasFlowAsset (NodeInstances w i)")
  case True
  then show ?thesis
    unfolding TryUpdateAutoDataPins_def i
    by (simp add: Cast_UFlowNode_def AutoDataChanged_def AutoDataInst_def SetInst_def Let_def
        split: prod.splits)
next
  case False
  then have e: "AutoDataInst w (NodeInstances w i) = NodeInstances w i"
    and c: "\<not> AutoDataChanged w (NodeInstances w i)"
    by (auto simp: AutoDataInst_def AutoDataChanged_def)
  show ?thesis
    unfolding TryUpdateAutoDataPins_def i e SetInst_same using False c
    by (auto simp: Cast_UFlowNode_def)
qed

lemma TryUpdateNodePins_eq:
  assumes i: "NodeInstance (GraphNodes w n) = Some i"
    and g: "OwnerGraph (GraphNodes w n) = Some g"
  shows "TryUpdateNodePins n w =
           Some (NodePinsChanged g (GraphNodes w n) (NodeInstances w i),
                 SetInst i (NodePinsInst g (GraphNodes w n) (NodeInstances w i)) w)"
proof (cases "InstanceClass (NodeInstances w i) = UFlowNode_Class \<and> \<not> bInstanceGarbage (NodeInstances w i)")
  case False
  then have e: "NodePinsInst g (GraphNodes w n) (NodeInstances w i) = NodeInstances w i"
    and c: "NodePinsChanged g (GraphNodes w n) (NodeInstances w i)"
    by (auto simp: NodePinsInst_def NodePinsChanged_def)
  show ?thesis
    unfolding TryUpdateNodePins_def Let_def i e SetInst_same using False c
    by (auto simp: Cast_UFlowNode_def IsValidInstance_def)
next
  case True
  note T = True
  show ?thesis
  proof (cases "ShouldRefresh g (GraphNodes w n) (NodeInstances w i)")
    case False
    with T have e: "NodePinsInst g (GraphNodes w n) (NodeInstances w i) = NodeInstances w i"
      and c: "\<not> NodePinsChanged g (GraphNodes w n) (NodeInstances w i)"
      by (auto simp: NodePinsInst_def NodePinsChanged_def)
    show ?thesis
      unfolding TryUpdateNodePins_def Let_def i e SetInst_same using T False c
      by (auto simp: Cast_UFlowNode_def IsValidInstance_def GetFlowGraph_def g ShouldRefresh_def
          SupportsContextPins_def i)
  next
    case True
    have r: "(\<not> bIsLoadingGraph g \<or> bCanRefreshContextPinsOnLoad (NodeInstances w i))
             \<and> SupportsContextPins n w \<or> bNeedsFullReconstruction (GraphNodes w n)"
      using True by (simp add: ShouldRefresh_def SupportsContextPins_def i)
    have e: "NodePinsInst g (GraphNodes w n) (NodeInstances w i) = RefreshedInst (NodeInstances w i)"
      and c: "NodePinsChanged g (GraphNodes w n) (NodeInstances w i)
              = (InputsChanged (NodeInstances w i) \<or> OutputsChanged (NodeInstances w i))"
      using T True by (auto simp: NodePinsInst_def NodePinsChanged_def)
    show ?thesis
      unfolding TryUpdateNodePins_def Let_def i e c using T r
      by (simp add: Cast_UFlowNode_def IsValidInstance_def GetFlowGraph_def g SetInst_def
          RefreshedInst_def InputsChanged_def OutputsChanged_def)
  qed
qed

lemma ShouldRefresh_reconstructing:
  "ShouldRefresh g (node\<lparr>bIsReconstructingNode := b\<rparr>) inst = ShouldRefresh g node inst"
  by (simp add: ShouldRefresh_def)

lemma NodePinsInst_reconstructing:
  "NodePinsInst g (node\<lparr>bIsReconstructingNode := b\<rparr>) inst = NodePinsInst g node inst"
  by (simp add: NodePinsInst_def ShouldRefresh_reconstructing)

lemma NodePinsChanged_reconstructing:
  "NodePinsChanged g (node\<lparr>bIsReconstructingNode := b\<rparr>) inst = NodePinsChanged g node inst"
  by (simp add: NodePinsChanged_def ShouldRefresh_reconstructing)

lemma AutoData_updater:
  "TryUpdateManagedFlowPinsForNode w' = TryUpdateManagedFlowPinsForNode w \<Longrightarrow>
     AutoDataInst w' = AutoDataInst w \<and> AutoDataChanged w' = AutoDataChanged w"
  by (auto simp: AutoDataInst_def AutoDataChanged_def fun_eq_iff)

lemma SetReconstructing_fields:
  shows "NodeInstances (SetReconstructing n b w) = NodeInstances w"
    and "GraphPins (SetReconstructing n b w) = GraphPins w"
    and "NextPinRef (SetReconstructing n b w) = NextPinRef w"
    and "Trace (SetReconstructing n b w) = Trace w"
    and "TryUpdateManagedFlowPinsForNode (SetReconstructing n b w) = TryUpdateManagedFlowPinsForNode w"
    and "GraphNodes (SetReconstructing n b w) n = (GraphNodes w n)\<lparr>bIsReconstructingNode := b\<rparr>"
    and "m \<noteq> n \<Longrightarrow> GraphNodes (SetReconstructing n b w) m = GraphNodes w m"
    and "GIsTransacting (SetReconstructing n b w) = GIsTransacting w"
    and "bOrphanPinsEnabled (SetReconstructing n b w) = bOrphanPinsEnabled w"
  by (simp_all add: SetReconstructing_def)

lemma Prepared_eq:
  assumes i: "NodeInstance (GraphNodes w n) = Some i"
    and g: "OwnerGraph (GraphNodes w n) = Some g"
  shows "Prepared n w =
           SetInst i (NodePinsInst g (GraphNodes w n) (AutoDataInst w (NodeInstances w i)))
             (SetReconstructing n True w)"
    and "RequiresReconstruction n w \<longleftrightarrow>
           bNeedsFullReconstruction (GraphNodes w n) \<or> AutoDataChanged w (NodeInstances w i)
           \<or> NodePinsChanged g (GraphNodes w n) (AutoDataInst w (NodeInstances w i))
           \<or> \<not> CheckGraphPinsMatchNodePins n (Prepared n w)"
proof -
  define w1 where "w1 = SetReconstructing n True w"
  define a where "a = AutoDataInst w (NodeInstances w i)"
  define w2 where "w2 = SetInst i a w1"
  have i1: "NodeInstance (GraphNodes w1 n) = Some i" and g1: "OwnerGraph (GraphNodes w1 n) = Some g"
    unfolding w1_def using i g by (simp_all add: SetReconstructing_fields)
  have u: "AutoDataInst w1 = AutoDataInst w" "AutoDataChanged w1 = AutoDataChanged w"
    using AutoData_updater [of w1 w] unfolding w1_def by (simp_all add: SetReconstructing_fields)
  have n1: "NodeInstances w1 i = NodeInstances w i" unfolding w1_def by (simp add: SetReconstructing_fields)
  have r2: "TryUpdateAutoDataPins n w1 = Some (AutoDataChanged w (NodeInstances w i), w2)"
    unfolding TryUpdateAutoDataPins_eq [OF i1] u n1 w2_def a_def ..
  have i2: "NodeInstance (GraphNodes w2 n) = Some i" and g2: "OwnerGraph (GraphNodes w2 n) = Some g"
    unfolding w2_def using i1 g1 by (simp_all add: SetInst_fields)
  have n2: "NodeInstances w2 i = a" unfolding w2_def by (simp add: SetInst_fields)
  have gn2: "GraphNodes w2 n = (GraphNodes w n)\<lparr>bIsReconstructingNode := True\<rparr>"
    unfolding w2_def w1_def by (simp add: SetInst_fields SetReconstructing_fields)
  have r3: "TryUpdateNodePins n w2 =
              Some (NodePinsChanged g (GraphNodes w n) a, SetInst i (NodePinsInst g (GraphNodes w n) a) w1)"
    unfolding TryUpdateNodePins_eq [OF i2 g2] n2 gn2 NodePinsInst_reconstructing
      NodePinsChanged_reconstructing
    unfolding w2_def SetInst_SetInst ..
  show p: "Prepared n w =
           SetInst i (NodePinsInst g (GraphNodes w n) (AutoDataInst w (NodeInstances w i)))
             (SetReconstructing n True w)"
    unfolding Prepared_def Let_def w1_def [symmetric] r2 a_def [symmetric]
    by (simp add: r3)
  have bn: "bNeedsFullReconstruction (GraphNodes (Prepared n w) n) = bNeedsFullReconstruction (GraphNodes w n)"
    unfolding p by (simp add: SetInst_fields SetReconstructing_fields)
  have pe: "snd (the (TryUpdateNodePins n w2)) = Prepared n w"
    unfolding p r3 w1_def a_def by simp
  show "RequiresReconstruction n w \<longleftrightarrow>
           bNeedsFullReconstruction (GraphNodes w n) \<or> AutoDataChanged w (NodeInstances w i)
           \<or> NodePinsChanged g (GraphNodes w n) (AutoDataInst w (NodeInstances w i))
           \<or> \<not> CheckGraphPinsMatchNodePins n (Prepared n w)"
    unfolding RequiresReconstruction_def Let_def w1_def [symmetric] r2 a_def [symmetric]
    by (simp add: pe bn) (simp add: r3)
qed

subsection \<open>The skeleton of the graph\<close>

lemma Skeleton_refl: "Skeleton w w"
  by (simp add: Skeleton_def)

lemma Skeleton_trans: "Skeleton a b \<Longrightarrow> Skeleton b c \<Longrightarrow> Skeleton a c"
proof -
  assume ab: "Skeleton a b" and bc: "Skeleton b c"
  from ab obtain e1 where e1: "Trace b = Trace a @ e1" unfolding Skeleton_def by blast
  from bc obtain e2 where e2: "Trace c = Trace b @ e2" unfolding Skeleton_def by blast
  have t: "\<exists>ev. Trace c = Trace a @ ev" unfolding e2 e1 by simp
  have n: "\<forall>m. SubNodes (GraphNodes c m) = SubNodes (GraphNodes a m)
         \<and> NodeInstance (GraphNodes c m) = NodeInstance (GraphNodes a m)
         \<and> bNodeGarbage (GraphNodes c m) = bNodeGarbage (GraphNodes a m)
         \<and> OwnerGraph (GraphNodes c m) = OwnerGraph (GraphNodes a m)
         \<and> NodeName (GraphNodes c m) = NodeName (GraphNodes a m)"
    using ab bc unfolding Skeleton_def by simp
  have j: "\<forall>j. InstanceClass (NodeInstances c j) = InstanceClass (NodeInstances a j)
           \<and> bInstanceGarbage (NodeInstances c j) = bInstanceGarbage (NodeInstances a j)"
    using ab bc unfolding Skeleton_def by simp
  have u: "TryUpdateManagedFlowPinsForNode c = TryUpdateManagedFlowPinsForNode a"
    using ab bc unfolding Skeleton_def by simp
  from n j u t show ?thesis unfolding Skeleton_def by blast
qed

lemma AddOnsKept_refl: "AddOnsKept S w w"
  by (simp add: AddOnsKept_def)

lemma AddOnsKept_trans: "AddOnsKept S a b \<Longrightarrow> AddOnsKept S b c \<Longrightarrow> AddOnsKept S a c"
  by (simp add: AddOnsKept_def)

lemma AddOnsKept_mono: "AddOnsKept S a b \<Longrightarrow> S \<subseteq> S' \<Longrightarrow> AddOnsKept S' a b"
  by (auto simp: AddOnsKept_def)

lemma UpdaterKeeps_Skeleton: "Skeleton w w' \<Longrightarrow> UpdaterKeeps w' = UpdaterKeeps w"
  by (simp add: Skeleton_def UpdaterKeeps_def)

lemma Skeleton_valid:
  assumes "Skeleton w w'"
  shows "IsValidInstance w' = IsValidInstance w"
    and "IsValidNode w' = IsValidNode w"
    and "Cast_UFlowNodeAddOn w' = Cast_UFlowNodeAddOn w"
    and "Cast_UFlowNode w' = Cast_UFlowNode w"
  using assms
  by (auto simp: Skeleton_def IsValidInstance_def IsValidNode_def Cast_UFlowNodeAddOn_def
      Cast_UFlowNode_def fun_eq_iff split: option.splits)

lemma Skeleton_PinsOnly:
  assumes "PinsOnly n w w'"
  shows "Skeleton w w'" and "AddOnsKept {} w w'"
proof -
  have ni: "NodeInstances w' = NodeInstances w" and tr: "Trace w' = Trace w"
    and up: "TryUpdateManagedFlowPinsForNode w' = TryUpdateManagedFlowPinsForNode w"
    and other: "\<And>m. m \<noteq> n \<Longrightarrow> GraphNodes w' m = GraphNodes w m"
    and sans: "NodeSansPins (GraphNodes w' n) = NodeSansPins (GraphNodes w n)"
    using assms unfolding PinsOnly_def by blast+
  have n: "SubNodes (GraphNodes w' n) = SubNodes (GraphNodes w n)
         \<and> NodeInstance (GraphNodes w' n) = NodeInstance (GraphNodes w n)
         \<and> bNodeGarbage (GraphNodes w' n) = bNodeGarbage (GraphNodes w n)
         \<and> OwnerGraph (GraphNodes w' n) = OwnerGraph (GraphNodes w n)
         \<and> NodeName (GraphNodes w' n) = NodeName (GraphNodes w n)"
    using sans unfolding NodeSansPins_eq_iff by simp
  have all: "\<And>m. SubNodes (GraphNodes w' m) = SubNodes (GraphNodes w m)
         \<and> NodeInstance (GraphNodes w' m) = NodeInstance (GraphNodes w m)
         \<and> bNodeGarbage (GraphNodes w' m) = bNodeGarbage (GraphNodes w m)
         \<and> OwnerGraph (GraphNodes w' m) = OwnerGraph (GraphNodes w m)
         \<and> NodeName (GraphNodes w' m) = NodeName (GraphNodes w m)"
  proof -
    fix m show "SubNodes (GraphNodes w' m) = SubNodes (GraphNodes w m)
         \<and> NodeInstance (GraphNodes w' m) = NodeInstance (GraphNodes w m)
         \<and> bNodeGarbage (GraphNodes w' m) = bNodeGarbage (GraphNodes w m)
         \<and> OwnerGraph (GraphNodes w' m) = OwnerGraph (GraphNodes w m)
         \<and> NodeName (GraphNodes w' m) = NodeName (GraphNodes w m)"
      by (cases "m = n") (simp_all add: n other)
  qed
  show "Skeleton w w'" unfolding Skeleton_def using all by (simp add: ni tr up)
  show "AddOnsKept {} w w'" unfolding AddOnsKept_def by (simp add: ni)
qed

lemma Skeleton_SetReconstructing:
  shows "Skeleton w (SetReconstructing n b w)" and "AddOnsKept {} w (SetReconstructing n b w)"
  by (simp_all add: Skeleton_def AddOnsKept_def SetReconstructing_def)

lemma Skeleton_DoneNode:
  shows "Skeleton w (DoneNode n w)" and "AddOnsKept {} w (DoneNode n w)"
  by (simp_all add: Skeleton_def AddOnsKept_def DoneNode_def)

lemma Skeleton_Finish:
  shows "Skeleton w (Finish n w)" and "AddOnsKept {} w (Finish n w)"
  by (simp_all add: Skeleton_def AddOnsKept_def Finish_def SetReconstructing_def)

lemma Skeleton_Trace:
  shows "Skeleton w (w\<lparr>Trace := Trace w @ ev\<rparr>)" and "AddOnsKept {} w (w\<lparr>Trace := Trace w @ ev\<rparr>)"
  by (simp_all add: Skeleton_def AddOnsKept_def)

lemma Skeleton_SetInst:
  assumes "InstanceClass a = InstanceClass (NodeInstances w i)"
    and "bInstanceGarbage a = bInstanceGarbage (NodeInstances w i)"
  shows "Skeleton w (SetInst i a w)" and "AddOnsKept {i} w (SetInst i a w)"
  using assms by (simp_all add: Skeleton_def AddOnsKept_def SetInst_def)

lemma AddOnsKept_SetInst:
  "AddOns a = AddOns (NodeInstances w i) \<Longrightarrow> AddOnsKept {} w (SetInst i a w)"
  by (simp add: AddOnsKept_def SetInst_def)

lemma PreparedInst_kept:
  assumes k: "UpdaterKeeps w"
  shows "InstanceClass (NodePinsInst g node (AutoDataInst w inst)) = InstanceClass inst"
    and "bInstanceGarbage (NodePinsInst g node (AutoDataInst w inst)) = bInstanceGarbage inst"
    and "AddOns (NodePinsInst g node (AutoDataInst w inst)) = AddOns inst"
proof -
  have a: "InstanceClass (AutoDataInst w inst) = InstanceClass inst"
    "bInstanceGarbage (AutoDataInst w inst) = bInstanceGarbage inst"
    "AddOns (AutoDataInst w inst) = AddOns inst"
    using k unfolding UpdaterKeeps_def AutoDataInst_def by simp_all
  have b: "\<And>x. InstanceClass (NodePinsInst g node x) = InstanceClass x"
    "\<And>x. bInstanceGarbage (NodePinsInst g node x) = bInstanceGarbage x"
    "\<And>x. AddOns (NodePinsInst g node x) = AddOns x"
    by (simp_all add: NodePinsInst_def RefreshedInst_def)
  show "InstanceClass (NodePinsInst g node (AutoDataInst w inst)) = InstanceClass inst"
    and "bInstanceGarbage (NodePinsInst g node (AutoDataInst w inst)) = bInstanceGarbage inst"
    and "AddOns (NodePinsInst g node (AutoDataInst w inst)) = AddOns inst"
    unfolding b a by (rule refl)+
qed

lemma Prepared_skeleton:
  assumes k: "UpdaterKeeps w" and g: "\<not> ReconstructGuard n w"
  shows "Skeleton w (Prepared n w)" and "AddOnsKept {} w (Prepared n w)"
proof -
  from Guard_pass_D [OF g] obtain i gr where
    i: "NodeInstance (GraphNodes w n) = Some i" and gr: "OwnerGraph (GraphNodes w n) = Some gr"
    by blast
  define w1 where "w1 = SetReconstructing n True w"
  define a where "a = NodePinsInst gr (GraphNodes w n) (AutoDataInst w (NodeInstances w i))"
  have p: "Prepared n w = SetInst i a w1" unfolding Prepared_eq(1) [OF i gr] a_def w1_def ..
  have n1: "NodeInstances w1 i = NodeInstances w i"
    unfolding w1_def by (simp add: SetReconstructing_fields)
  have c: "InstanceClass a = InstanceClass (NodeInstances w1 i)"
    and b: "bInstanceGarbage a = bInstanceGarbage (NodeInstances w1 i)"
    and d: "AddOns a = AddOns (NodeInstances w1 i)"
    unfolding n1 a_def by (rule PreparedInst_kept [OF k])+
  have s1: "Skeleton w w1" and k1: "AddOnsKept {} w w1"
    unfolding w1_def by (rule Skeleton_SetReconstructing)+
  show "Skeleton w (Prepared n w)"
    unfolding p by (rule Skeleton_trans [OF s1 Skeleton_SetInst(1) [OF c b]])
  show "AddOnsKept {} w (Prepared n w)"
    unfolding p by (rule AddOnsKept_trans [OF k1 AddOnsKept_SetInst [OF d]])
qed

lemma RebuiltWorld_skeleton:
  shows "Skeleton w (RebuiltWorld n w)" and "AddOnsKept {} w (RebuiltWorld n w)"
proof -
  note po = Skeleton_PinsOnly [OF RebuiltWorld_PinsOnly [of n w]]
  show "Skeleton w (RebuiltWorld n w)" by (rule Skeleton_trans [OF Skeleton_DoneNode(1) po(1)])
  show "AddOnsKept {} w (RebuiltWorld n w)" by (rule AddOnsKept_trans [OF Skeleton_DoneNode(2) po(2)])
qed

lemma ReconstructNode_skeleton:
  assumes k: "UpdaterKeeps w" and r: "ReconstructNode n w = Some w'"
  shows "Skeleton w w'" and "AddOnsKept {} w w'"
proof -
  have "Skeleton w w' \<and> AddOnsKept {} w w'"
  proof (cases "ReconstructGuard n w")
    case True
    have e: "w' = w\<lparr>Trace := Trace w @ GuardDiagnostics n w\<rparr>"
      by (rule ReconstructNode_guarded_Some(2) [OF True r])
    show ?thesis unfolding e using Skeleton_Trace by blast
  next
    case False
    define X where "X = (if RequiresReconstruction n w then RebuiltWorld n (Prepared n w) else Prepared n w)"
    have e: "w' = Finish n X" using r unfolding ReconstructNode_pass [OF False] X_def by simp
    have px: "Skeleton (Prepared n w) X \<and> AddOnsKept {} (Prepared n w) X"
      unfolding X_def using RebuiltWorld_skeleton Skeleton_refl AddOnsKept_refl by simp
    have wx: "Skeleton w X" using Skeleton_trans [OF Prepared_skeleton(1) [OF k False]] px by blast
    have ax: "AddOnsKept {} w X" using AddOnsKept_trans [OF Prepared_skeleton(2) [OF k False]] px by blast
    show ?thesis unfolding e
      using Skeleton_trans [OF wx Skeleton_Finish(1)] AddOnsKept_trans [OF ax Skeleton_Finish(2)]
      by blast
  qed
  then show "Skeleton w w'" and "AddOnsKept {} w w'" by blast+
qed

subsection \<open>Mirroring the sub-nodes\<close>

lemma fold_AddUnique_snoc: "fold AddUnique (xs @ [x]) acc = AddUnique x (fold AddUnique xs acc)"
  by simp

lemma fold_AddUnique_set: "set (fold AddUnique xs acc) = set acc \<union> set xs"
  by (induction xs arbitrary: acc) (auto simp: AddUnique_def)

lemma fold_AddUnique_Nil: "fold AddUnique xs [] = rev (remdups (rev xs))"
proof (induction xs rule: rev_induct)
  case Nil
  show ?case by simp
next
  case (snoc x xs)
  have s: "set (rev (remdups (rev xs))) = set xs" by simp
  show ?case
    unfolding fold_AddUnique_snoc snoc.IH
    by (simp add: AddUnique_def)
qed

lemma LogError_Some:
  assumes "LogError msg n w = Some w1"
  shows "\<exists>b. GetFlowAsset (GraphNodes w n) = Some b
            \<and> w1 = (if b then w\<lparr>Trace := Trace w @ [LoggedError msg]\<rparr> else w)"
  using assms unfolding LogError_def by (cases "GetFlowAsset (GraphNodes w n)") auto

lemma Skeleton_mirror:
  assumes sk: "Skeleton w w'"
  shows "SubNodeAddOn w' = SubNodeAddOn w"
    and "SubNodeDiagnostic w' n = SubNodeDiagnostic w n"
    and "GetFlowAsset (GraphNodes w' n) = GetFlowAsset (GraphNodes w n)"
    and "SubNodeDiagnostics w' n = SubNodeDiagnostics w n"
    and "ValidAddOns w' n = ValidAddOns w n"
    and "MirrorDiagnostics n w' = MirrorDiagnostics n w"
proof -
  have ni: "\<And>m. NodeInstance (GraphNodes w' m) = NodeInstance (GraphNodes w m)"
    and nm: "\<And>m. NodeName (GraphNodes w' m) = NodeName (GraphNodes w m)"
    and og: "\<And>m. OwnerGraph (GraphNodes w' m) = OwnerGraph (GraphNodes w m)"
    and sn: "\<And>m. SubNodes (GraphNodes w' m) = SubNodes (GraphNodes w m)"
    using sk unfolding Skeleton_def by blast+
  show a: "SubNodeAddOn w' = SubNodeAddOn w"
    unfolding SubNodeAddOn_def Skeleton_valid [OF sk] ni ..
  show d: "SubNodeDiagnostic w' n = SubNodeDiagnostic w n"
    unfolding SubNodeDiagnostic_def a Skeleton_valid [OF sk] nm ..
  show f: "GetFlowAsset (GraphNodes w' n) = GetFlowAsset (GraphNodes w n)"
    unfolding GetFlowAsset_def GetFlowGraph_def og ..
  show ds: "SubNodeDiagnostics w' n = SubNodeDiagnostics w n"
    unfolding SubNodeDiagnostics_def d f ..
  show "ValidAddOns w' n = ValidAddOns w n"
    unfolding ValidAddOns_def a sn ..
  show "MirrorDiagnostics n w' = MirrorDiagnostics n w"
    unfolding MirrorDiagnostics_def ds sn ..
qed

lemma MirrorSubNodes_Cons:
  assumes r: "MirrorSubNodes n i (s # rest) w = Some w'"
  shows "\<exists>w1. MirrorSubNodes n i rest w1 = Some w' \<and> Skeleton w w1 \<and> AddOnsKept {i} w w1
           \<and> AddOns (NodeInstances w1 i) =
               (case SubNodeAddOn w s of None \<Rightarrow> AddOns (NodeInstances w i)
                | Some a \<Rightarrow> AddUnique a (AddOns (NodeInstances w i)))
           \<and> Trace w1 = Trace w @ SubNodeDiagnostics w n [s]"
proof -
  have logged: "\<And>msg w1. LogError msg n w = Some w1 \<Longrightarrow>
       Skeleton w w1 \<and> AddOnsKept {i} w w1 \<and> AddOns (NodeInstances w1 i) = AddOns (NodeInstances w i)
       \<and> Trace w1 = Trace w @ (if GetFlowAsset (GraphNodes w n) = Some True then [LoggedError msg] else [])"
  proof -
    fix msg w1 assume "LogError msg n w = Some w1"
    from LogError_Some [OF this] obtain b where
      b: "GetFlowAsset (GraphNodes w n) = Some b"
      and e: "w1 = (if b then w\<lparr>Trace := Trace w @ [LoggedError msg]\<rparr> else w)" by blast
    show "Skeleton w w1 \<and> AddOnsKept {i} w w1 \<and> AddOns (NodeInstances w1 i) = AddOns (NodeInstances w i)
       \<and> Trace w1 = Trace w @ (if GetFlowAsset (GraphNodes w n) = Some True then [LoggedError msg] else [])"
      unfolding e b by (simp add: Skeleton_def AddOnsKept_def)
  qed
  show ?thesis
  proof (cases "IsValidNode w s")
    case False
    from r False obtain w1 where
      l: "LogError (NodeName (GraphNodes w n) @ '': Has unexpectedly null SubNode'') n w = Some w1"
      and m: "MirrorSubNodes n i rest w1 = Some w'"
      by (auto split: Option.bind_splits)
    have a: "SubNodeAddOn w s = None" using False by (simp add: SubNodeAddOn_def)
    have d: "SubNodeDiagnostics w n [s] =
       (if GetFlowAsset (GraphNodes w n) = Some True
        then [LoggedError (NodeName (GraphNodes w n) @ '': Has unexpectedly null SubNode'')] else [])"
      using False by (simp add: SubNodeDiagnostics_def SubNodeDiagnostic_def)
    from logged [OF l] m show ?thesis unfolding a d by auto
  next
    case True
    define A where "A = Cast_UFlowNodeAddOn w (NodeInstance (GraphNodes w (the s)))"
    show ?thesis
    proof (cases "IsValidInstance w A")
      case False
      from r True False obtain w1 where
        l: "LogError (NodeName (GraphNodes w n) @ '': SubNode is missing an AddOn NodeInstance'') n w = Some w1"
        and m: "MirrorSubNodes n i rest w1 = Some w'"
        unfolding A_def by (auto simp: Let_def split: Option.bind_splits)
      have a: "SubNodeAddOn w s = None" using True False by (simp add: SubNodeAddOn_def A_def)
      have d: "SubNodeDiagnostics w n [s] =
         (if GetFlowAsset (GraphNodes w n) = Some True
          then [LoggedError (NodeName (GraphNodes w n) @ '': SubNode is missing an AddOn NodeInstance'')] else [])"
        using True a by (simp add: SubNodeDiagnostics_def SubNodeDiagnostic_def)
      from logged [OF l] m show ?thesis unfolding a d by auto
    next
      case False2: True
      then obtain a where A: "A = Some a" unfolding IsValidInstance_def by (cases A) auto
      define w1 where "w1 = SetInst i ((NodeInstances w i)\<lparr>AddOns := AddUnique a (AddOns (NodeInstances w i))\<rparr>) w"
      have m: "MirrorSubNodes n i rest w1 = Some w'"
        using r True False2 unfolding A_def [symmetric] w1_def SetInst_def
        by (simp add: Let_def A_def [symmetric] A)
      have sa: "SubNodeAddOn w s = Some a"
        using True False2 unfolding SubNodeAddOn_def A_def [symmetric] by (simp add: A)
      have d: "SubNodeDiagnostics w n [s] = []"
        using True sa by (simp add: SubNodeDiagnostics_def SubNodeDiagnostic_def)
      have sk: "Skeleton w w1" and k: "AddOnsKept {i} w w1"
        unfolding w1_def by (rule Skeleton_SetInst; simp)+
      have ad: "AddOns (NodeInstances w1 i) = AddUnique a (AddOns (NodeInstances w i))"
        and tr: "Trace w1 = Trace w"
        unfolding w1_def by (simp_all add: SetInst_fields)
      from m sk k ad tr show ?thesis unfolding sa d by auto
    qed
  qed
qed

lemma MirrorSubNodes_post:
  assumes "MirrorSubNodes n i subs w = Some w'"
  shows "Skeleton w w' \<and> AddOnsKept {i} w w'
         \<and> AddOns (NodeInstances w' i) =
             fold AddUnique (List.map_filter (SubNodeAddOn w) subs) (AddOns (NodeInstances w i))
         \<and> Trace w' = Trace w @ SubNodeDiagnostics w n subs"
  using assms
proof (induction subs arbitrary: w)
  case Nil
  then have e: "w' = w" by simp
  show ?case unfolding e
    by (simp add: Skeleton_refl AddOnsKept_refl List.map_filter_simps SubNodeDiagnostics_def)
next
  case (Cons s rest)
  from MirrorSubNodes_Cons [OF Cons.prems] obtain w1 where
    m: "MirrorSubNodes n i rest w1 = Some w'" and sk: "Skeleton w w1" and k: "AddOnsKept {i} w w1"
    and ad: "AddOns (NodeInstances w1 i) =
               (case SubNodeAddOn w s of None \<Rightarrow> AddOns (NodeInstances w i)
                | Some a \<Rightarrow> AddUnique a (AddOns (NodeInstances w i)))"
    and tr: "Trace w1 = Trace w @ SubNodeDiagnostics w n [s]"
    by blast
  note IH = Cons.IH [OF m]
  have sk': "Skeleton w w'" using Skeleton_trans [OF sk] IH by blast
  have k': "AddOnsKept {i} w w'" using AddOnsKept_trans [OF k] IH by blast
  have ad': "AddOns (NodeInstances w' i) =
             fold AddUnique (List.map_filter (SubNodeAddOn w) (s # rest)) (AddOns (NodeInstances w i))"
    using IH unfolding Skeleton_mirror(1) [OF sk] ad
    by (cases "SubNodeAddOn w s") (simp_all add: List.map_filter_simps)
  have tr': "Trace w' = Trace w @ SubNodeDiagnostics w n (s # rest)"
    using IH unfolding Skeleton_mirror(4) [OF sk] tr
    by (simp add: SubNodeDiagnostics_def)
  from sk' k' ad' tr' show ?case by blast
qed

lemma MirrorAddOns_post:
  assumes r: "MirrorAddOns n w = Some w'"
  shows "Skeleton w w'"
    and "AddOnsKept (set_option (NodeInstance (GraphNodes w n))) w w'"
    and "IsValidInstance w (NodeInstance (GraphNodes w n)) \<Longrightarrow> NodeInstance (GraphNodes w n) = Some i \<Longrightarrow>
           AddOns (NodeInstances w' i) = rev (remdups (rev (ValidAddOns w n)))
           \<and> Trace w' = Trace w @ MirrorDiagnostics n w"
proof -
  have "Skeleton w w' \<and> AddOnsKept (set_option (NodeInstance (GraphNodes w n))) w w'
        \<and> (IsValidInstance w (NodeInstance (GraphNodes w n)) \<longrightarrow> NodeInstance (GraphNodes w n) = Some i \<longrightarrow>
           AddOns (NodeInstances w' i) = rev (remdups (rev (ValidAddOns w n)))
           \<and> Trace w' = Trace w @ MirrorDiagnostics n w)"
  proof (cases "IsValidInstance w (NodeInstance (GraphNodes w n))")
    case False
    then have "w' = w" using r by (simp add: MirrorAddOns_def Let_def)
    then show ?thesis using False by (simp add: Skeleton_refl AddOnsKept_refl)
  next
    case True
    then obtain j where j: "NodeInstance (GraphNodes w n) = Some j"
      unfolding IsValidInstance_def by (cases "NodeInstance (GraphNodes w n)") auto
    define w1 where "w1 = SetInst j ((NodeInstances w j)\<lparr>AddOns := []\<rparr>) w"
    have m: "MirrorSubNodes n j (SubNodes (GraphNodes w n)) w1 = Some w'"
      using r True unfolding MirrorAddOns_def Let_def j w1_def SetInst_def by simp
    have sk: "Skeleton w w1" and k: "AddOnsKept {j} w w1"
      unfolding w1_def by (rule Skeleton_SetInst; simp)+
    have ad: "AddOns (NodeInstances w1 j) = []" and tr: "Trace w1 = Trace w"
      unfolding w1_def by (simp_all add: SetInst_fields)
    note P = MirrorSubNodes_post [OF m]
    have sk': "Skeleton w w'" using Skeleton_trans [OF sk] P by blast
    have k': "AddOnsKept {j} w w'" using AddOnsKept_trans [OF k] P by blast
    have ad': "AddOns (NodeInstances w' j) = rev (remdups (rev (ValidAddOns w n)))"
      using P unfolding Skeleton_mirror(1) [OF sk] ad fold_AddUnique_Nil ValidAddOns_def by blast
    have tr': "Trace w' = Trace w @ MirrorDiagnostics n w"
      using P unfolding Skeleton_mirror(4) [OF sk] tr MirrorDiagnostics_def by blast
    from sk' k' ad' tr' show ?thesis unfolding j by auto
  qed
  then show "Skeleton w w'"
    and "AddOnsKept (set_option (NodeInstance (GraphNodes w n))) w w'"
    and "IsValidInstance w (NodeInstance (GraphNodes w n)) \<Longrightarrow> NodeInstance (GraphNodes w n) = Some i \<Longrightarrow>
           AddOns (NodeInstances w' i) = rev (remdups (rev (ValidAddOns w n)))
           \<and> Trace w' = Trace w @ MirrorDiagnostics n w"
    by blast+
qed

lemma ForEachValidSubNode_post:
  assumes step: "\<And>s a b. f s a = Some b \<Longrightarrow> Skeleton w0 a \<Longrightarrow> Skeleton a b \<and> (G a \<longrightarrow> G b)"
  shows "ForEachValidSubNode f subs w = Some w' \<Longrightarrow> Skeleton w0 w \<Longrightarrow>
           Skeleton w w' \<and> (G w \<longrightarrow> G w')"
proof (induction subs arbitrary: w)
  case Nil
  then show ?case by (simp add: Skeleton_refl)
next
  case (Cons s rest)
  show ?case
  proof (cases "IsValidNode w s")
    case False
    with Cons.prems have "ForEachValidSubNode f rest w = Some w'" by simp
    from Cons.IH [OF this Cons.prems(2)] show ?thesis .
  next
    case True
    with Cons.prems obtain w1 where f: "f (the s) w = Some w1"
      and r: "ForEachValidSubNode f rest w1 = Some w'"
      by (auto split: Option.bind_splits)
    from step [OF f Cons.prems(2)] have a: "Skeleton w w1" and g: "G w \<longrightarrow> G w1" by blast+
    have s1: "Skeleton w0 w1" by (rule Skeleton_trans [OF Cons.prems(2) a])
    from Cons.IH [OF r s1] have b: "Skeleton w1 w'" and g': "G w1 \<longrightarrow> G w'" by blast+
    from Skeleton_trans [OF a b] g g' show ?thesis by blast
  qed
qed

lemma ForEachValidSubNode_skeleton:
  assumes step: "\<And>s a b. f s a = Some b \<Longrightarrow> Skeleton w0 a \<Longrightarrow> Skeleton a b"
    and run: "ForEachValidSubNode f subs w = Some w'" and sk: "Skeleton w0 w"
  shows "Skeleton w w'"
  using ForEachValidSubNode_post [of f w0 "\<lambda>x. True" subs w w'] step run sk by simp

lemma Rebuild_unfold:
  assumes "RebuildRuntimeAddOnsFromEditorSubNodes (Suc d) m w = Some w'"
  shows "\<exists>w1 w2. MirrorAddOns m w = Some w1
           \<and> ForEachValidSubNode (RebuildRuntimeAddOnsFromEditorSubNodes d) (SubNodes (GraphNodes w1 m)) w1 = Some w2
           \<and> (w' = w2 \<or> ReconstructNode m w2 = Some w')"
  using assms by (auto simp: Let_def split: Option.bind_splits if_splits)

lemma Rebuild_post:
  assumes K: "UpdaterKeeps w0"
    and O: "\<forall>m. NodeInstance (GraphNodes w0 m) = Some i \<longrightarrow> m = n"
    and Ni: "NodeInstance (GraphNodes w0 n) = Some i"
    and V: "IsValidInstance w0 (Some i)"
  shows "RebuildRuntimeAddOnsFromEditorSubNodes d m w = Some w' \<Longrightarrow> Skeleton w0 w \<Longrightarrow>
           Skeleton w w'
           \<and> (m = n \<or> AddOns (NodeInstances w i) = rev (remdups (rev (ValidAddOns w0 n)))
                \<longrightarrow> AddOns (NodeInstances w' i) = rev (remdups (rev (ValidAddOns w0 n))))"
proof (induction d arbitrary: m w w')
  case 0
  then show ?case by simp
next
  case (Suc d)
  define T where "T = rev (remdups (rev (ValidAddOns w0 n)))"
  define G where "G = (\<lambda>x::World. AddOns (NodeInstances x i) = T)"
  from Rebuild_unfold [OF Suc.prems(1)] obtain w1 w2 where
    m1: "MirrorAddOns m w = Some w1"
    and fe: "ForEachValidSubNode (RebuildRuntimeAddOnsFromEditorSubNodes d) (SubNodes (GraphNodes w1 m)) w1 = Some w2"
    and fin: "w' = w2 \<or> ReconstructNode m w2 = Some w'"
    by blast
  note sk0 = Suc.prems(2)
  have nm: "\<And>x. NodeInstance (GraphNodes w x) = NodeInstance (GraphNodes w0 x)"
    using sk0 unfolding Skeleton_def by blast
  have s1: "Skeleton w w1" by (rule MirrorAddOns_post(1) [OF m1])
  have g1: "m = n \<or> G w \<longrightarrow> G w1"
  proof (cases "m = n")
    case True
    have v: "IsValidInstance w (NodeInstance (GraphNodes w n))"
      unfolding nm Ni Skeleton_valid(1) [OF sk0] by (rule V)
    have ni: "NodeInstance (GraphNodes w n) = Some i" unfolding nm by (rule Ni)
    from MirrorAddOns_post(3) [OF m1 [unfolded True] v ni]
    have "AddOns (NodeInstances w1 i) = rev (remdups (rev (ValidAddOns w n)))" by blast
    then show ?thesis unfolding G_def T_def Skeleton_mirror(5) [OF sk0] by blast
  next
    case False
    have "NodeInstance (GraphNodes w m) \<noteq> Some i" unfolding nm using O False by blast
    then have "i \<notin> set_option (NodeInstance (GraphNodes w m))" by (cases "NodeInstance (GraphNodes w m)") simp_all
    with MirrorAddOns_post(2) [OF m1]
    have "AddOns (NodeInstances w1 i) = AddOns (NodeInstances w i)" unfolding AddOnsKept_def by blast
    then show ?thesis unfolding G_def using False by simp
  qed
  have s01: "Skeleton w0 w1" by (rule Skeleton_trans [OF sk0 s1])
  have step: "\<And>s a b. RebuildRuntimeAddOnsFromEditorSubNodes d s a = Some b \<Longrightarrow> Skeleton w0 a \<Longrightarrow>
                Skeleton a b \<and> (G a \<longrightarrow> G b)"
    unfolding G_def T_def using Suc.IH by blast
  have "Skeleton w1 w2 \<and> (G w1 \<longrightarrow> G w2)"
  proof (rule ForEachValidSubNode_post [of "RebuildRuntimeAddOnsFromEditorSubNodes d" w0 G, OF _ fe s01])
    fix s a b
    assume "RebuildRuntimeAddOnsFromEditorSubNodes d s a = Some b" and "Skeleton w0 a"
    then show "Skeleton a b \<and> (G a \<longrightarrow> G b)" by (rule step)
  qed
  then have s2: "Skeleton w1 w2" and g2: "G w1 \<longrightarrow> G w2" by blast+
  have s02: "Skeleton w0 w2" by (rule Skeleton_trans [OF s01 s2])
  have last: "Skeleton w2 w' \<and> (G w2 \<longrightarrow> G w')"
  proof (cases "w' = w2")
    case True
    then show ?thesis by (simp add: Skeleton_refl)
  next
    case False
    with fin have r: "ReconstructNode m w2 = Some w'" by blast
    have k2: "UpdaterKeeps w2" unfolding UpdaterKeeps_Skeleton [OF s02] by (rule K)
    from ReconstructNode_skeleton [OF k2 r] show ?thesis unfolding G_def AddOnsKept_def by simp
  qed
  have "Skeleton w w'" using Skeleton_trans [OF Skeleton_trans [OF s1 s2]] last by blast
  moreover have "m = n \<or> G w \<longrightarrow> G w'" using g1 g2 last by blast
  ultimately show ?case unfolding G_def T_def by blast
qed

subsection \<open>Cleaning a pin array\<close>

lemma RemoveAtSwap_split:
  "RemoveAtSwap (length a) (a @ x # ys) = (if ys = [] then a else a @ last ys # butlast ys)"
  by (simp add: RemoveAtSwap_def butlast_append)

lemma set_last_butlast: "ys \<noteq> [] \<Longrightarrow> set (last ys # butlast ys) = set ys"
proof -
  assume "ys \<noteq> []"
  then have "ys = butlast ys @ [last ys]" by simp
  then have "set ys = set (butlast ys @ [last ys])" by simp
  then show ?thesis by auto
qed

lemma CleanInvalidLoop_split:
  "\<forall>y \<in> set ys. \<not> bad y \<Longrightarrow>
     set (CleanInvalidLoop bad (length a) (a @ ys)) = {x \<in> set a. \<not> bad x} \<union> set ys
     \<and> length (CleanInvalidLoop bad (length a) (a @ ys)) = length (filter (\<lambda>x. \<not> bad x) a) + length ys"
proof (induction a arbitrary: ys rule: rev_induct)
  case Nil
  show ?case by simp
next
  case (snoc x b)
  have n: "(b @ x # ys) ! length b = x" by simp
  show ?case
  proof (cases "bad x")
    case False
    have g: "\<forall>y \<in> set (x # ys). \<not> bad y" using False snoc.prems by simp
    have e: "CleanInvalidLoop bad (length (b @ [x])) ((b @ [x]) @ ys)
             = CleanInvalidLoop bad (length b) (b @ x # ys)"
      using False by (simp add: n)
    show ?thesis unfolding e using snoc.IH [OF g] False by auto
  next
    case True
    define ys' where "ys' = (if ys = [] then [] else last ys # butlast ys)"
    have s: "set ys' = set ys" unfolding ys'_def using set_last_butlast [of ys] by simp
    have l: "length ys' = length ys" unfolding ys'_def by simp
    have g: "\<forall>y \<in> set ys'. \<not> bad y" unfolding s by (rule snoc.prems)
    have r: "RemoveAtSwap (length b) (b @ x # ys) = b @ ys'"
      unfolding RemoveAtSwap_split ys'_def by simp
    have e: "CleanInvalidLoop bad (length (b @ [x])) ((b @ [x]) @ ys)
             = CleanInvalidLoop bad (length b) (b @ ys')"
      using True by (simp add: n r)
    show ?thesis unfolding e using snoc.IH [OF g] True by (auto simp: s l)
  qed
qed

lemma CleanInvalidLoop_full:
  shows "set (CleanInvalidLoop bad (length xs) xs) = {x \<in> set xs. \<not> bad x}"
    and "length (CleanInvalidLoop bad (length xs) xs) = length (filter (\<lambda>x. \<not> bad x) xs)"
  using CleanInvalidLoop_split [of "[]" bad xs] by simp_all

lemma CleanInvalidLoop_none:
  "\<forall>x \<in> set xs. \<not> bad x \<Longrightarrow> k \<le> length xs \<Longrightarrow> CleanInvalidLoop bad k xs = xs"
  by (induction k) simp_all

lemma CleanInvalidPins_set:
  shows "set (CleanInvalidPins ds) = set (ValidPins ds)"
    and "length (CleanInvalidPins ds) = length (ValidPins ds)"
  unfolding CleanInvalidPins_def CleanInvalidLoop_full ValidPins_def FlowPin_IsValid_def
  by simp_all

lemma CleanInvalidPins_idem: "CleanInvalidPins (CleanInvalidPins ds) = CleanInvalidPins ds"
proof -
  have "\<forall>x \<in> set (CleanInvalidPins ds). \<not> \<not> FlowPin_IsValid x"
    unfolding CleanInvalidPins_set ValidPins_def FlowPin_IsValid_def by simp
  from CleanInvalidLoop_none [OF this order_refl]
  show ?thesis unfolding CleanInvalidPins_def [of "CleanInvalidLoop _ _ _"]
    unfolding CleanInvalidPins_def [symmetric] by simp
qed

lemma CleanInvalidGraphPins_set:
  shows "set (CleanInvalidGraphPins h ps) = {p \<in> set ps. \<not> bOrphanedPin (h p)}"
    and "length (CleanInvalidGraphPins h ps) = length (filter (\<lambda>p. \<not> bOrphanedPin (h p)) ps)"
  unfolding CleanInvalidGraphPins_def CleanInvalidLoop_full by simp_all

subsection \<open>A refreshed instance needs no refresh\<close>

lemma RefreshedInst_stable:
  shows "\<not> InputsChanged (RefreshedInst a)" and "\<not> OutputsChanged (RefreshedInst a)"
  by (simp_all add: InputsChanged_def OutputsChanged_def RefreshedInst_def CleanInvalidPins_idem
      CheckPinsMatch_refl)

lemma RefreshedInst_idem: "RefreshedInst (RefreshedInst a) = RefreshedInst a"
  using RefreshedInst_stable [of a]
  unfolding RefreshedInst_def [of "RefreshedInst a"] by simp

subsection \<open>The pin array after a rebuild matches the descriptors\<close>

lemma CheckGraphPinsMatchNodePins_cong:
  assumes "NodeInstance (GraphNodes a n) = NodeInstance (GraphNodes b n)"
    and "Pins (GraphNodes a n) = Pins (GraphNodes b n)"
    and "NodeInstances a = NodeInstances b"
    and "GraphPins a = GraphPins b"
  shows "CheckGraphPinsMatchNodePins n a = CheckGraphPinsMatchNodePins n b"
  unfolding CheckGraphPinsMatchNodePins_def Let_def Cast_UFlowNode_def IsValidInstance_def assms ..

lemma CheckGraphPinsMatch_iff:
  "CheckGraphPinsMatch h ps ds \<longleftrightarrow>
     length ps = length ds \<and> (\<forall>d \<in> set ds. \<exists>p \<in> set ps. EdPinName (h p) = PinName d)"
  unfolding CheckGraphPinsMatch_def list_all_iff list_ex_iff by simp

lemma RequiredPins_flow_node:
  assumes i: "NodeInstance (GraphNodes w n) = Some i"
    and c: "InstanceClass (NodeInstances w i) = UFlowNode_Class"
  shows "RequiredPins n w = ValidPins (NodeInputPins (NodeInstances w i) @ NodeOutputPins (NodeInstances w i))"
  unfolding RequiredPins_def RequiredInputs_def RequiredOutputs_def i
  using c by (simp add: Cast_UFlowNode_def ValidPins_def)

lemma RequiredPins_other:
  assumes i: "NodeInstance (GraphNodes w n) = Some i"
    and c: "InstanceClass (NodeInstances w i) \<noteq> UFlowNode_Class"
  shows "RequiredPins n w = []"
  unfolding RequiredPins_def RequiredInputs_def RequiredOutputs_def i
  using c by (simp add: Cast_UFlowNode_def)

lemma RebuiltWorld_node:
  shows "NodeInstances (RebuiltWorld n w) = NodeInstances w"
    and "NodeInstance (GraphNodes (RebuiltWorld n w) n) = NodeInstance (GraphNodes w n)"
    and "OwnerGraph (GraphNodes (RebuiltWorld n w) n) = OwnerGraph (GraphNodes w n)"
    and "bNeedsFullReconstruction (GraphNodes (RebuiltWorld n w) n) = False"
    and "bIsReconstructingNode (GraphNodes (RebuiltWorld n w) n) = bIsReconstructingNode (GraphNodes w n)"
    and "bIsDestroyingNode (GraphNodes (RebuiltWorld n w) n) = bIsDestroyingNode (GraphNodes w n)"
    and "bDisableOrphanPinSaving (GraphNodes (RebuiltWorld n w) n) = bDisableOrphanPinSaving (GraphNodes w n)"
    and "OrphanedPinSaveMode (GraphNodes (RebuiltWorld n w) n) = OrphanedPinSaveMode (GraphNodes w n)"
    and "bOrphanPinsEnabled (RebuiltWorld n w) = bOrphanPinsEnabled w"
    and "GIsTransacting (RebuiltWorld n w) = GIsTransacting w"
    and "TryUpdateManagedFlowPinsForNode (RebuiltWorld n w) = TryUpdateManagedFlowPinsForNode w"
proof -
  have po: "PinsOnly n (DoneNode n w) (RebuiltWorld n w)" by (rule RebuiltWorld_PinsOnly)
  have sans: "NodeSansPins (GraphNodes (RebuiltWorld n w) n) = NodeSansPins (GraphNodes (DoneNode n w) n)"
    using po unfolding PinsOnly_def by blast
  note f = sans [unfolded NodeSansPins_eq_iff]
  show "NodeInstances (RebuiltWorld n w) = NodeInstances w"
    using po unfolding PinsOnly_def by (simp add: DoneNode_def)
  show "bOrphanPinsEnabled (RebuiltWorld n w) = bOrphanPinsEnabled w"
    using po unfolding PinsOnly_def by (simp add: DoneNode_def)
  show "GIsTransacting (RebuiltWorld n w) = GIsTransacting w"
    using po unfolding PinsOnly_def by (simp add: DoneNode_def)
  show "TryUpdateManagedFlowPinsForNode (RebuiltWorld n w) = TryUpdateManagedFlowPinsForNode w"
    using po unfolding PinsOnly_def by (simp add: DoneNode_def)
  show "NodeInstance (GraphNodes (RebuiltWorld n w) n) = NodeInstance (GraphNodes w n)"
    using f by (simp add: DoneNode_def)
  show "OwnerGraph (GraphNodes (RebuiltWorld n w) n) = OwnerGraph (GraphNodes w n)"
    using f by (simp add: DoneNode_def)
  show "bNeedsFullReconstruction (GraphNodes (RebuiltWorld n w) n) = False"
    using f by (simp add: DoneNode_def)
  show "bIsReconstructingNode (GraphNodes (RebuiltWorld n w) n) = bIsReconstructingNode (GraphNodes w n)"
    using f by (simp add: DoneNode_def)
  show "bIsDestroyingNode (GraphNodes (RebuiltWorld n w) n) = bIsDestroyingNode (GraphNodes w n)"
    using f by (simp add: DoneNode_def)
  show "bDisableOrphanPinSaving (GraphNodes (RebuiltWorld n w) n) = bDisableOrphanPinSaving (GraphNodes w n)"
    using f by (simp add: DoneNode_def)
  show "OrphanedPinSaveMode (GraphNodes (RebuiltWorld n w) n) = OrphanedPinSaveMode (GraphNodes w n)"
    using f by (simp add: DoneNode_def)
qed

lemma Rebuilt_clean:
  assumes wf: "PinsWellFormed n w"
  shows "filter (\<lambda>p. \<not> bOrphanedPin (GraphPins (RebuiltWorld n w) p)) (Pins (GraphNodes (RebuiltWorld n w) n))
         = [NextPinRef w ..< NextPinRef w + length (RequiredPins n w)]"
proof -
  define h where "h = GraphPins (RebuiltWorld n w)"
  define N where "N = NextPinRef w"
  define L where "L = length (RequiredPins n w)"
  define Orph where "Orph = filter (\<lambda>p. StaysOrphan n w p \<and> ParentPin (GraphPins w p) = None) (Pins (GraphNodes w n))"
  have fresh: "\<And>p. p \<in> set [N ..< N + L] \<Longrightarrow> \<not> bOrphanedPin (h p)"
  proof -
    fix p assume "p \<in> set [N ..< N + L]"
    then have j: "p - N < L" and e: "N + (p - N) = p" by auto
    from Rebuilt_new(2) [OF wf j [unfolded L_def]]
    show "\<not> bOrphanedPin (h p)" unfolding h_def N_def [symmetric] e by simp
  qed
  have orph: "\<And>p. p \<in> set Orph \<Longrightarrow> bOrphanedPin (h p)"
  proof -
    fix p assume "p \<in> set Orph"
    then have p: "p \<in> set (Pins (GraphNodes w n))" and o: "StaysOrphan n w p" unfolding Orph_def by auto
    show "bOrphanedPin (h p)" unfolding h_def Rebuilt_orphan [OF wf p o] by (simp add: MarkOrphan_def)
  qed
  have a: "filter (\<lambda>p. \<not> bOrphanedPin (h p)) [N ..< N + L] = [N ..< N + L]"
    using fresh by (simp add: filter_id_conv)
  have b: "filter (\<lambda>p. \<not> bOrphanedPin (h p)) Orph = []"
    using orph by (simp add: filter_empty_conv)
  show ?thesis
    unfolding Rebuilt_Pins [OF wf] h_def [symmetric] N_def [symmetric] L_def [symmetric] Orph_def [symmetric]
    by (simp add: a b)
qed

lemma Rebuilt_check:
  assumes wf: "PinsWellFormed n w"
    and i: "NodeInstance (GraphNodes w n) = Some i"
    and c: "InstanceClass (NodeInstances w i) = UFlowNode_Class"
    and v: "\<not> bInstanceGarbage (NodeInstances w i)"
  shows "CheckGraphPinsMatchNodePins n (RebuiltWorld n w)"
proof -
  define w' where "w' = RebuiltWorld n w"
  define inst where "inst = NodeInstances w i"
  define h where "h = GraphPins w'"
  define R where "R = RequiredPins n w"
  have ni: "NodeInstances w' = NodeInstances w" and i': "NodeInstance (GraphNodes w' n) = Some i"
    unfolding w'_def RebuiltWorld_node i by (rule refl)+
  have R: "R = ValidPins (NodeInputPins inst @ NodeOutputPins inst)"
    unfolding R_def inst_def by (rule RequiredPins_flow_node [OF i c])
  have len: "length (CleanInvalidGraphPins h (Pins (GraphNodes w' n))) = length R"
    unfolding CleanInvalidGraphPins_set h_def w'_def Rebuilt_clean [OF wf] R_def by simp
  have st: "set (CleanInvalidGraphPins h (Pins (GraphNodes w' n))) = set [NextPinRef w ..< NextPinRef w + length R]"
  proof -
    have "{p \<in> set (Pins (GraphNodes w' n)). \<not> bOrphanedPin (h p)}
          = set (filter (\<lambda>p. \<not> bOrphanedPin (h p)) (Pins (GraphNodes w' n)))" by auto
    then show ?thesis
      unfolding CleanInvalidGraphPins_set h_def w'_def Rebuilt_clean [OF wf] R_def by simp
  qed
  have ex: "\<forall>d \<in> set R. \<exists>p \<in> set [NextPinRef w ..< NextPinRef w + length R]. EdPinName (h p) = PinName d"
  proof
    fix d assume "d \<in> set R"
    then obtain j where j: "j < length R" and d: "R ! j = d" unfolding in_set_conv_nth by blast
    have nm: "EdPinName (h (NextPinRef w + j)) = PinName d"
      unfolding h_def w'_def using Rebuilt_new(1) [OF wf j [unfolded R_def]] d unfolding R_def by simp
    have "NextPinRef w + j \<in> set [NextPinRef w ..< NextPinRef w + length R]" using j by simp
    with nm show "\<exists>p \<in> set [NextPinRef w ..< NextPinRef w + length R]. EdPinName (h p) = PinName d"
      by blast
  qed
  have m: "CheckGraphPinsMatch h (CleanInvalidGraphPins h (Pins (GraphNodes w' n)))
             (CleanInvalidPins (NodeInputPins inst @ NodeOutputPins inst))"
    unfolding CheckGraphPinsMatch_iff CleanInvalidPins_set R [symmetric] st len using ex by simp
  show ?thesis
    unfolding w'_def [symmetric] CheckGraphPinsMatchNodePins_def Let_def i' ni
    using c v m unfolding h_def inst_def
    by (simp add: Cast_UFlowNode_def IsValidInstance_def ni)
qed

subsection \<open>Two calls in succession\<close>

lemma ReconstructGuard_Trace: "ReconstructGuard n (w\<lparr>Trace := t\<rparr>) = ReconstructGuard n w"
  by (simp add: ReconstructGuard_def IsValidInstance_def split: option.splits)

lemma GuardAborts_Trace: "GuardAborts n (w\<lparr>Trace := t\<rparr>) = GuardAborts n w"
  by (simp add: GuardAborts_def IsValidInstance_def split: option.splits)

lemma AutoDataInst_class:
  shows "InstanceClass (AutoDataInst w x) = InstanceClass x"
    and "bInstanceGarbage (AutoDataInst w x) = bInstanceGarbage x"
  by (simp_all add: AutoDataInst_def)

lemma Finish_node:
  shows "GraphNodes (Finish n w) n = (GraphNodes w n)\<lparr>bIsReconstructingNode := False\<rparr>"
    and "bOrphanPinsEnabled (Finish n w) = bOrphanPinsEnabled w"
    and "TryUpdateManagedFlowPinsForNode (Finish n w) = TryUpdateManagedFlowPinsForNode w"
    and "GIsTransacting (Finish n w) = GIsTransacting w"
  by (simp_all add: Finish_def SetReconstructing_def)

lemma Prepared_node:
  assumes i: "NodeInstance (GraphNodes w n) = Some i"
    and gr: "OwnerGraph (GraphNodes w n) = Some gr"
  shows "GraphNodes (Prepared n w) n = (GraphNodes w n)\<lparr>bIsReconstructingNode := True\<rparr>"
    and "NodeInstances (Prepared n w) i = NodePinsInst gr (GraphNodes w n) (AutoDataInst w (NodeInstances w i))"
    and "bOrphanPinsEnabled (Prepared n w) = bOrphanPinsEnabled w"
    and "TryUpdateManagedFlowPinsForNode (Prepared n w) = TryUpdateManagedFlowPinsForNode w"
  unfolding Prepared_eq(1) [OF i gr]
  by (simp_all add: SetInst_fields SetReconstructing_fields)

lemma First_call:
  assumes g: "\<not> ReconstructGuard n w"
    and i: "NodeInstance (GraphNodes w n) = Some i"
    and gr: "OwnerGraph (GraphNodes w n) = Some gr"
    and r1: "ReconstructNode n w = Some w1"
  shows "w1 = Finish n (if RequiresReconstruction n w then RebuiltWorld n (Prepared n w) else Prepared n w)"
    and "NodeInstances w1 = NodeInstances (Prepared n w)"
    and "NodeInstance (GraphNodes w1 n) = Some i"
    and "OwnerGraph (GraphNodes w1 n) = Some gr"
    and "bNeedsFullReconstruction (GraphNodes w1 n) = False"
    and "bOrphanPinsEnabled w1 = bOrphanPinsEnabled w"
    and "bDisableOrphanPinSaving (GraphNodes w1 n) = bDisableOrphanPinSaving (GraphNodes w n)"
    and "OrphanedPinSaveMode (GraphNodes w1 n) = OrphanedPinSaveMode (GraphNodes w n)"
proof -
  define P where "P = Prepared n w"
  define X where "X = (if RequiresReconstruction n w then RebuiltWorld n P else P)"
  show e: "w1 = Finish n (if RequiresReconstruction n w then RebuiltWorld n (Prepared n w) else Prepared n w)"
    using r1 unfolding ReconstructNode_pass [OF g] by simp
  then have e': "w1 = Finish n X" unfolding X_def P_def .
  note pn = Prepared_node [OF i gr, folded P_def]
  have nf: "\<not> RequiresReconstruction n w \<Longrightarrow> \<not> bNeedsFullReconstruction (GraphNodes w n)"
    unfolding Prepared_eq(2) [OF i gr] by simp
  have xi: "NodeInstances X = NodeInstances P" unfolding X_def by (simp add: RebuiltWorld_node)
  have xn: "NodeInstance (GraphNodes X n) = Some i"
    "OwnerGraph (GraphNodes X n) = Some gr"
    "bNeedsFullReconstruction (GraphNodes X n) = False"
    "bOrphanPinsEnabled X = bOrphanPinsEnabled w"
    "bDisableOrphanPinSaving (GraphNodes X n) = bDisableOrphanPinSaving (GraphNodes w n)"
    "OrphanedPinSaveMode (GraphNodes X n) = OrphanedPinSaveMode (GraphNodes w n)"
    unfolding X_def using nf by (simp_all add: RebuiltWorld_node pn i gr)
  show "NodeInstances w1 = NodeInstances (Prepared n w)"
    unfolding e' P_def [symmetric] by (simp add: Finish_fields xi)
  show "NodeInstance (GraphNodes w1 n) = Some i" unfolding e' by (simp add: Finish_node xn)
  show "OwnerGraph (GraphNodes w1 n) = Some gr" unfolding e' by (simp add: Finish_node xn)
  show "bNeedsFullReconstruction (GraphNodes w1 n) = False" unfolding e' by (simp add: Finish_node xn)
  show "bOrphanPinsEnabled w1 = bOrphanPinsEnabled w" unfolding e' by (simp add: Finish_node xn)
  show "bDisableOrphanPinSaving (GraphNodes w1 n) = bDisableOrphanPinSaving (GraphNodes w n)"
    unfolding e' by (simp add: Finish_node xn)
  show "OrphanedPinSaveMode (GraphNodes w1 n) = OrphanedPinSaveMode (GraphNodes w n)"
    unfolding e' by (simp add: Finish_node xn)
qed

lemma NodePinsInst_fix:
  assumes nf: "\<not> bNeedsFullReconstruction node1"
    and e: "inst1 = NodePinsInst gr node a"
  shows "NodePinsInst gr node1 inst1 = inst1"
    and "InstanceClass inst1 = UFlowNode_Class \<Longrightarrow> \<not> bInstanceGarbage inst1 \<Longrightarrow>
           \<not> NodePinsChanged gr node1 inst1"
proof -
  have "NodePinsInst gr node1 inst1 = inst1
        \<and> (InstanceClass inst1 = UFlowNode_Class \<longrightarrow> \<not> bInstanceGarbage inst1 \<longrightarrow>
           \<not> NodePinsChanged gr node1 inst1)"
  proof (cases "InstanceClass a = UFlowNode_Class \<and> \<not> bInstanceGarbage a \<and> ShouldRefresh gr node a")
    case True
    then have r: "inst1 = RefreshedInst a" unfolding e by (simp add: NodePinsInst_def)
    show ?thesis
      unfolding r NodePinsInst_def NodePinsChanged_def
      by (simp add: RefreshedInst_idem RefreshedInst_stable)
  next
    case False
    then have r: "inst1 = a" unfolding e by (auto simp: NodePinsInst_def)
    have s: "ShouldRefresh gr node1 a \<Longrightarrow> ShouldRefresh gr node a"
      using nf by (auto simp: ShouldRefresh_def)
    show ?thesis
      unfolding r NodePinsInst_def NodePinsChanged_def using False s by auto
  qed
  then show "NodePinsInst gr node1 inst1 = inst1"
    and "InstanceClass inst1 = UFlowNode_Class \<Longrightarrow> \<not> bInstanceGarbage inst1 \<Longrightarrow>
           \<not> NodePinsChanged gr node1 inst1"
    by blast+
qed

lemma CheckGraphPinsMatchNodePins_Finish:
  "CheckGraphPinsMatchNodePins n (Finish n w) = CheckGraphPinsMatchNodePins n w"
  by (rule CheckGraphPinsMatchNodePins_cong) (simp_all add: Finish_fields Finish_node)

lemma CheckGraphPinsMatchNodePins_SetReconstructing:
  "CheckGraphPinsMatchNodePins n (SetReconstructing n b w) = CheckGraphPinsMatchNodePins n w"
  by (rule CheckGraphPinsMatchNodePins_cong) (simp_all add: SetReconstructing_fields)

lemma NodePinsInst_class:
  shows "InstanceClass (NodePinsInst g node x) = InstanceClass x"
    and "bInstanceGarbage (NodePinsInst g node x) = bInstanceGarbage x"
  by (simp_all add: NodePinsInst_def RefreshedInst_def)

lemma Second_prepared:
  assumes i1: "NodeInstance (GraphNodes w1 n) = Some i"
    and gr1: "OwnerGraph (GraphNodes w1 n) = Some gr"
    and a1: "AutoDataInst w1 (NodeInstances w1 i) = NodeInstances w1 i"
    and p1: "NodePinsInst gr (GraphNodes w1 n) (NodeInstances w1 i) = NodeInstances w1 i"
  shows "Prepared n w1 = SetReconstructing n True w1"
proof -
  have "NodeInstances w1 i = NodeInstances (SetReconstructing n True w1) i"
    by (simp add: SetReconstructing_fields)
  then show ?thesis
    unfolding Prepared_eq(1) [OF i1 gr1] a1 p1 by (simp add: SetInst_same)
qed

lemma Second_call_flow_node:
  assumes wf: "PinsWellFormed n w"
    and g0: "\<not> ReconstructGuard n w"
    and r1: "ReconstructNode n w = Some w1"
    and g1: "\<not> ReconstructGuard n w1"
    and q: "UpdaterQuiescent n w1"
    and i: "NodeInstance (GraphNodes w n) = Some i"
    and gr: "OwnerGraph (GraphNodes w n) = Some gr"
    and c: "InstanceClass (NodeInstances w1 i) = UFlowNode_Class"
  shows "ReconstructNode n w1 = Some (Finish n (SetReconstructing n True w1))"
proof -
  define P where "P = Prepared n w"
  define inst1 where "inst1 = NodeInstances w1 i"
  note F = First_call [OF g0 i gr r1]
  note i1 = F(3) and gr1 = F(4)
  have v: "\<not> bInstanceGarbage inst1"
    using g1 unfolding ReconstructGuard_def i1 inst1_def by (simp add: IsValidInstance_def)
  have u: "TryUpdateManagedFlowPinsForNode w1 inst1 = (False, inst1)"
    using q unfolding UpdaterQuiescent_def i1 inst1_def by simp
  have a1: "AutoDataInst w1 inst1 = inst1" and ac: "\<not> AutoDataChanged w1 inst1"
    unfolding AutoDataInst_def AutoDataChanged_def u by simp_all
  have e: "inst1 = NodePinsInst gr (GraphNodes w n) (AutoDataInst w (NodeInstances w i))"
    unfolding inst1_def F(2) by (rule Prepared_node(2) [OF i gr])
  have nf: "\<not> bNeedsFullReconstruction (GraphNodes w1 n)" using F(5) by simp
  have p1: "NodePinsInst gr (GraphNodes w1 n) inst1 = inst1"
    by (rule NodePinsInst_fix(1) [OF nf e])
  have pc: "\<not> NodePinsChanged gr (GraphNodes w1 n) inst1"
    by (rule NodePinsInst_fix(2) [OF nf e c [folded inst1_def] v])
  have P2: "Prepared n w1 = SetReconstructing n True w1"
    by (rule Second_prepared [OF i1 gr1 a1 [unfolded inst1_def] p1 [unfolded inst1_def]])
  have chk: "CheckGraphPinsMatchNodePins n w1"
  proof (cases "RequiresReconstruction n w")
    case True
    have e1: "w1 = Finish n (RebuiltWorld n P)" unfolding P_def using F(1) True by simp
    have wfP: "PinsWellFormed n P" unfolding P_def Prepared_fields(5) [OF g0] by (rule wf)
    have iP: "NodeInstance (GraphNodes P n) = Some i"
      unfolding P_def Prepared_node(1) [OF i gr] using i by simp
    have ie: "NodeInstances P i = inst1" unfolding inst1_def F(2) P_def ..
    have cP: "InstanceClass (NodeInstances P i) = UFlowNode_Class"
      unfolding ie using c unfolding inst1_def .
    have vP: "\<not> bInstanceGarbage (NodeInstances P i)" unfolding ie by (rule v)
    show ?thesis
      unfolding e1 CheckGraphPinsMatchNodePins_Finish by (rule Rebuilt_check [OF wfP iP cP vP])
  next
    case False
    have e1: "w1 = Finish n P" unfolding P_def using F(1) False by simp
    have "CheckGraphPinsMatchNodePins n P"
      using False unfolding Prepared_eq(2) [OF i gr] P_def by simp
    then show ?thesis unfolding e1 CheckGraphPinsMatchNodePins_Finish .
  qed
  have req: "\<not> RequiresReconstruction n w1"
    unfolding Prepared_eq(2) [OF i1 gr1] inst1_def [symmetric] a1 P2
      CheckGraphPinsMatchNodePins_SetReconstructing
    using nf ac pc chk by simp
  show ?thesis unfolding ReconstructNode_pass [OF g1] P2 using req by simp
qed

lemma Second_call_other:
  assumes wf: "PinsWellFormed n w"
    and g0: "\<not> ReconstructGuard n w"
    and r1: "ReconstructNode n w = Some w1"
    and g1: "\<not> ReconstructGuard n w1"
    and i: "NodeInstance (GraphNodes w n) = Some i"
    and gr: "OwnerGraph (GraphNodes w n) = Some gr"
    and c: "InstanceClass (NodeInstances w1 i) \<noteq> UFlowNode_Class"
  shows "\<exists>w2. ReconstructNode n w1 = Some w2
           \<and> Pins (GraphNodes w2 n) = Pins (GraphNodes w1 n)
           \<and> PinView n w2 = PinView n w1"
proof -
  define P where "P = Prepared n w"
  define inst1 where "inst1 = NodeInstances w1 i"
  define P2 where "P2 = SetReconstructing n True w1"
  define w2 where "w2 = Finish n (RebuiltWorld n P2)"
  define Old where "Old = Pins (GraphNodes w n)"
  define Pins1 where "Pins1 = Pins (GraphNodes w1 n)"
  note F = First_call [OF g0 i gr r1]
  note i1 = F(3) and gr1 = F(4)
  have c1: "InstanceClass inst1 \<noteq> UFlowNode_Class" unfolding inst1_def by (rule c)
  have a1: "AutoDataInst w1 inst1 = inst1" unfolding AutoDataInst_def using c1 by simp
  have p1: "NodePinsInst gr (GraphNodes w1 n) inst1 = inst1" unfolding NodePinsInst_def using c1 by simp
  have pc: "NodePinsChanged gr (GraphNodes w1 n) inst1" unfolding NodePinsChanged_def using c1 by simp
  have P2e: "Prepared n w1 = P2"
    unfolding P2_def by (rule Second_prepared [OF i1 gr1 a1 [unfolded inst1_def] p1 [unfolded inst1_def]])
  have req2: "RequiresReconstruction n w1"
    unfolding Prepared_eq(2) [OF i1 gr1] inst1_def [symmetric] a1 using pc by simp
  have r2: "ReconstructNode n w1 = Some w2"
    unfolding ReconstructNode_pass [OF g1] P2e w2_def using req2 by simp
  \<comment> \<open>the first call rebuilt the pin array, and allocated nothing\<close>
  have e: "inst1 = NodePinsInst gr (GraphNodes w n) (AutoDataInst w (NodeInstances w i))"
    unfolding inst1_def F(2) by (rule Prepared_node(2) [OF i gr])
  have ca: "InstanceClass (AutoDataInst w (NodeInstances w i)) \<noteq> UFlowNode_Class"
    using c1 unfolding e NodePinsInst_class .
  have req1: "RequiresReconstruction n w"
    unfolding Prepared_eq(2) [OF i gr] NodePinsChanged_def using ca by simp
  have e1: "w1 = Finish n (RebuiltWorld n P)" unfolding P_def using F(1) req1 by simp
  have wfP: "PinsWellFormed n P" unfolding P_def Prepared_fields(5) [OF g0] by (rule wf)
  have iP: "NodeInstance (GraphNodes P n) = Some i"
    unfolding P_def Prepared_node(1) [OF i gr] using i by simp
  have ie: "NodeInstances P i = inst1" unfolding inst1_def F(2) P_def ..
  have RP: "RequiredPins n P = []"
    by (rule RequiredPins_other [OF iP]) (simp add: ie c1)
  have hP: "GraphPins P = GraphPins w" and pP: "Pins (GraphNodes P n) = Old"
    and nP: "NextPinRef P = NextPinRef w"
    unfolding P_def Old_def by (rule Prepared_fields [OF g0])+
  have oP: "\<And>p. OrphanCondition P n p = OrphanCondition w n p"
    unfolding P_def by (rule Prepared_fields(6) [OF g0])
  have Pins1: "Pins1 = filter (\<lambda>p. StaysOrphan n P p \<and> ParentPin (GraphPins w p) = None) Old"
    unfolding Pins1_def e1 Finish_fields Rebuilt_Pins [OF wfP] RP pP hP by simp
  have sub: "set Pins1 \<subseteq> set Old" unfolding Pins1 by auto
  have h1: "\<And>p. p \<in> set Pins1 \<Longrightarrow> GraphPins w1 p = MarkOrphan (GraphPins w p)"
  proof -
    fix p assume "p \<in> set Pins1"
    then have p: "p \<in> set (Pins (GraphNodes P n))" and so: "StaysOrphan n P p"
      unfolding Pins1 pP by auto
    show "GraphPins w1 p = MarkOrphan (GraphPins w p)"
      unfolding e1 Finish_fields Rebuilt_orphan [OF wfP p so] hP ..
  qed
  have n1: "NextPinRef w1 = NextPinRef w"
    unfolding e1 Finish_fields Rebuilt_NextPinRef [OF wfP] RP nP by simp
  \<comment> \<open>the state in which the second call rebuilds\<close>
  have h2: "GraphPins P2 = GraphPins w1" and p2: "Pins (GraphNodes P2 n) = Pins1"
    and n2: "NextPinRef P2 = NextPinRef w"
    and i2: "NodeInstance (GraphNodes P2 n) = Some i"
    and ni2: "NodeInstances P2 i = inst1"
    and f2: "bOrphanPinsEnabled P2 = bOrphanPinsEnabled w"
      "bDisableOrphanPinSaving (GraphNodes P2 n) = bDisableOrphanPinSaving (GraphNodes w n)"
      "OrphanedPinSaveMode (GraphNodes P2 n) = OrphanedPinSaveMode (GraphNodes w n)"
    unfolding P2_def Pins1_def inst1_def
    by (simp_all add: SetReconstructing_fields n1 i1 F(6,7,8))
  have old: "\<And>p. p \<in> set Old \<Longrightarrow>
               p < NextPinRef w \<and> (\<forall>t \<in> set (LinkedTo (GraphPins w p)). t < NextPinRef w \<and> t \<notin> set Old)"
    using wf unfolding PinsWellFormed_def Old_def by blast
  have dOld: "distinct Old" using wf unfolding PinsWellFormed_def Old_def by blast
  have wf2: "PinsWellFormed n P2"
    unfolding PinsWellFormed_def p2 n2 h2
  proof (intro conjI ballI)
    show "distinct Pins1" unfolding Pins1 using dOld by simp
  next
    fix p assume p: "p \<in> set Pins1"
    then show "p < NextPinRef w" using old sub by blast
  next
    fix p t assume p: "p \<in> set Pins1" and t: "t \<in> set (LinkedTo (GraphPins w1 p))"
    from t have "t \<in> set (LinkedTo (GraphPins w p))"
      unfolding h1 [OF p] by (simp add: MarkOrphan_def)
    with old p sub show "t < NextPinRef w" by blast
  next
    fix p t assume p: "p \<in> set Pins1" and t: "t \<in> set (LinkedTo (GraphPins w1 p))"
    from t have "t \<in> set (LinkedTo (GraphPins w p))"
      unfolding h1 [OF p] by (simp add: MarkOrphan_def)
    with old p sub show "t \<notin> set Pins1" by blast
  qed
  have RP2: "RequiredPins n P2 = []"
    by (rule RequiredPins_other [OF i2]) (simp add: ni2 c1)
  have stay: "\<And>p. p \<in> set Pins1 \<Longrightarrow> StaysOrphan n P2 p \<and> ParentPin (GraphPins P2 p) = None"
  proof -
    fix p assume p: "p \<in> set Pins1"
    then have so: "StaysOrphan n P p" and pp: "ParentPin (GraphPins w p) = None"
      unfolding Pins1 by auto
    have oc: "OrphanCondition w n p" using so unfolding StaysOrphan_def oP by blast
    have um: "RebuildMatchedPins n P2 p = None"
      by (rule Unmatched_if_name_absent [OF wf2]) (simp add: RP2)
    have oc2: "OrphanCondition P2 n p"
      using oc unfolding OrphanCondition_def f2 h2 h1 [OF p] by (simp add: MarkOrphan_def)
    have pp2: "ParentPin (GraphPins P2 p) = None"
      unfolding h2 h1 [OF p] using pp by (simp add: MarkOrphan_def)
    from um oc2 pp2 show "StaysOrphan n P2 p \<and> ParentPin (GraphPins P2 p) = None"
      unfolding StaysOrphan_def by blast
  qed
  have Pins2: "Pins (GraphNodes w2 n) = Pins1"
    unfolding w2_def Finish_fields Rebuilt_Pins [OF wf2] RP2 p2 using stay
    by (simp add: filter_id_conv)
  have hv: "\<And>p. p \<in> set Pins1 \<Longrightarrow>
              EdPinName (GraphPins w2 p) = EdPinName (GraphPins w1 p)
              \<and> bOrphanedPin (GraphPins w2 p) = bOrphanedPin (GraphPins w1 p)"
  proof -
    fix p assume p: "p \<in> set Pins1"
    have pin: "p \<in> set (Pins (GraphNodes P2 n))" unfolding p2 by (rule p)
    have so: "StaysOrphan n P2 p" using stay [OF p] by blast
    show "EdPinName (GraphPins w2 p) = EdPinName (GraphPins w1 p)
              \<and> bOrphanedPin (GraphPins w2 p) = bOrphanedPin (GraphPins w1 p)"
      unfolding w2_def Finish_fields Rebuilt_orphan [OF wf2 pin so] h2 h1 [OF p]
      by (simp add: MarkOrphan_def)
  qed
  have view: "PinView n w2 = PinView n w1"
    unfolding PinView_def Pins2 Pins1_def [symmetric] using hv by simp
  from r2 Pins2 view show ?thesis unfolding Pins1_def by blast
qed

text \<open>
  C1. Let \<^verbatim>\<open>ReconstructNode\<close> be called on a node whose pins are distinct, allocated and
  connected to pins of other nodes only, and let the data-pin update of the Flow asset have
  nothing left to change on the node instance as this call leaves it. Then a second call
  returns with the same pin sequence: the same pins, with the same names and the same
  orphaned flags, in the same order.
\<close>

theorem ReconstructNode_idempotent:
  assumes wf: "PinsWellFormed n w"
    and r1: "ReconstructNode n w = Some w1"
    and q: "UpdaterQuiescent n w1"
  shows "\<exists>w2. ReconstructNode n w1 = Some w2
           \<and> Pins (GraphNodes w2 n) = Pins (GraphNodes w1 n)
           \<and> PinView n w2 = PinView n w1"
proof (cases "ReconstructGuard n w1")
  case True
  have na: "\<not> GuardAborts n w1"
  proof (cases "ReconstructGuard n w")
    case g: True
    note S = ReconstructNode_guarded_Some [OF g r1]
    have "GuardAborts n w1 = GuardAborts n w" unfolding S(2) by (rule GuardAborts_Trace)
    with S(1) show ?thesis by blast
  next
    case g0: False
    from Guard_pass_D [OF g0] obtain i gr where
      i: "NodeInstance (GraphNodes w n) = Some i" and gr: "OwnerGraph (GraphNodes w n) = Some gr"
      by blast
    note F = First_call [OF g0 i gr r1]
    have v: "\<not> bInstanceGarbage (NodeInstances w i)"
      using g0 unfolding ReconstructGuard_def i by (simp add: IsValidInstance_def)
    have "bInstanceGarbage (NodeInstances w1 i) = bInstanceGarbage (NodeInstances w i)"
      unfolding F(2) Prepared_node(2) [OF i gr] NodePinsInst_class AutoDataInst_class ..
    with v have "IsValidInstance w1 (NodeInstance (GraphNodes w1 n))"
      unfolding F(3) by (simp add: IsValidInstance_def)
    then show ?thesis unfolding GuardAborts_def by simp
  qed
  show ?thesis unfolding ReconstructNode_guarded [OF True na] by (simp add: PinView_def)
next
  case False
  have g0: "\<not> ReconstructGuard n w"
  proof
    assume g: "ReconstructGuard n w"
    have "w1 = w\<lparr>Trace := Trace w @ GuardDiagnostics n w\<rparr>"
      by (rule ReconstructNode_guarded_Some(2) [OF g r1])
    then have "ReconstructGuard n w1 = ReconstructGuard n w" by (simp add: ReconstructGuard_Trace)
    with g False show False by blast
  qed
  from Guard_pass_D [OF g0] obtain i gr where
    i: "NodeInstance (GraphNodes w n) = Some i" and gr: "OwnerGraph (GraphNodes w n) = Some gr"
    by blast
  show ?thesis
  proof (cases "InstanceClass (NodeInstances w1 i) = UFlowNode_Class")
    case True
    show ?thesis
      unfolding Second_call_flow_node [OF wf g0 r1 False q i gr True]
      by (simp add: PinView_def Finish_fields SetReconstructing_fields)
  next
    case c: False
    show ?thesis by (rule Second_call_other [OF wf g0 r1 False i gr c])
  qed
qed

theorem ReconstructNode_idempotent_witness:
  "PinsWellFormed 0 BranchWorld
   \<and> ReconstructNode 0 BranchWorld \<noteq> None
   \<and> UpdaterQuiescent 0 (the (ReconstructNode 0 BranchWorld))
   \<and> PinView 0 (the (ReconstructNode 0 BranchWorld))
       = [(''In'', False), (''Out'', False), (''True'', False), (''False'', True)]
   \<and> ReconstructNode 0 (the (ReconstructNode 0 BranchWorld)) \<noteq> None
   \<and> PinView 0 (the (ReconstructNode 0 (the (ReconstructNode 0 BranchWorld))))
       = [(''In'', False), (''Out'', False), (''True'', False), (''False'', True)]"
proof -
  have wf: "PinsWellFormed 0 BranchWorld"
    by (simp add: PinsWellFormed_def BranchWorld_def ExWorld_def ExNode_def BranchPins_def ExPin_def)
  have r: "ReconstructNode 0 BranchWorld \<noteq> None"
    by code_simp
  then obtain w1 where r1: "ReconstructNode 0 BranchWorld = Some w1" by blast
  have q: "UpdaterQuiescent 0 (the (ReconstructNode 0 BranchWorld))"
    by code_simp
  have v: "PinView 0 (the (ReconstructNode 0 BranchWorld))
       = [(''In'', False), (''Out'', False), (''True'', False), (''False'', True)]"
    by code_simp
  from ReconstructNode_idempotent [OF wf r1 q [unfolded r1 option.sel]] obtain w2 where
    r2: "ReconstructNode 0 w1 = Some w2" and e: "PinView 0 w2 = PinView 0 w1" by blast
  from wf r q v r2 e show ?thesis unfolding r1 by simp
qed

subsection \<open>The search for a new pin is complete\<close>

lemma SearchNewPin_finds:
  assumes j: "\<not> matched ! j" "EdPinName (h (New ! j)) = name"
  shows "start < length New \<Longrightarrow> \<exists>t < c. (start + t) mod length New = j \<Longrightarrow>
           SearchNewPin c start matched New h name \<noteq> None"
proof (induction c arbitrary: start)
  case 0
  then show ?case by simp
next
  case (Suc c)
  from Suc.prems(2) obtain t where t: "t < Suc c" and e: "(start + t) mod length New = j" by blast
  show ?case
  proof (cases "\<not> matched ! start \<and> EdPinName (h (New ! start)) = name")
    case True
    then show ?thesis by simp
  next
    case False
    have t0: "t \<noteq> 0"
    proof
      assume "t = 0"
      then have "start = j" using e Suc.prems(1) by simp
      with False j show False by simp
    qed
    then obtain t' where t': "t = Suc t'" by (cases t) auto
    have pos: "0 < length New" using Suc.prems(1) by (cases New) simp_all
    have lt: "(start + 1) mod length New < length New" by (rule mod_less_divisor [OF pos])
    have "((start + 1) mod length New + t') mod length New = (start + 1 + t') mod length New"
      by (rule mod_add_left_eq)
    then have e': "((start + 1) mod length New + t') mod length New = j" using e t' by simp
    have ex: "\<exists>t < c. ((start + 1) mod length New + t) mod length New = j"
      using t t' e' by auto
    from Suc.IH [OF lt ex] False show ?thesis by simp
  qed
qed

lemma scan_reaches:
  assumes "start < N" and "j < (N::nat)"
  shows "\<exists>t < N. (start + t) mod N = j"
proof -
  define t where "t = (j + N - start) mod N"
  have "t < N" unfolding t_def using assms by simp
  moreover have "(start + t) mod N = j"
  proof -
    have "(start + t) mod N = (start + (j + N - start)) mod N"
      unfolding t_def by (rule mod_add_right_eq)
    also have "start + (j + N - start) = j + N" using assms by simp
    also have "(j + N) mod N = j" using assms by simp
    finally show ?thesis .
  qed
  ultimately show ?thesis by blast
qed

lemma SearchNewPin_complete:
  assumes "j < length New" and "\<not> matched ! j" and "EdPinName (h (New ! j)) = name"
    and "start < length New"
  shows "\<exists>j'. SearchNewPin (length New) start matched New h name = Some j'"
proof -
  have "SearchNewPin (length New) start matched New h name \<noteq> None"
    using SearchNewPin_finds [of matched j h New name start "length New"] assms
      scan_reaches [OF assms(4,1)] by blast
  then show ?thesis by blast
qed

subsection \<open>A pin with a name of its own is matched\<close>

lemma RewireInit_taken: "InvTaken n w2 (RewireInit n Old w2)"
  by (simp add: InvTaken_def RewireInit_def)

lemma RewireStep_maps:
  assumes ctx: "RewireCtx n w2 Old" and inv: "RewireInv n w2 Old (Suc i) st" and i: "i < length Old"
    and k: "k = length (Pins (GraphNodes w2 n))"
  shows "StepSearch n k i st = None \<Longrightarrow>
           MatchedPins (RewireStep n k i st) = MatchedPins st
           \<and> NewPinMatched (RewireStep n k i st) = NewPinMatched st"
    and "StepSearch n k i st = Some j \<Longrightarrow>
           MatchedPins (RewireStep n k i st) = (MatchedPins st)(Old ! i \<mapsto> Pins (GraphNodes w2 n) ! j)
           \<and> NewPinMatched (RewireStep n k i st) = (NewPinMatched st)[j := True]"
proof -
  note b = Inv_basic [OF ctx inv i]
  show "StepSearch n k i st = None \<Longrightarrow>
           MatchedPins (RewireStep n k i st) = MatchedPins st
           \<and> NewPinMatched (RewireStep n k i st) = NewPinMatched st"
    by (simp add: RewireStep_unmatched)
  show "StepSearch n k i st = Some j \<Longrightarrow>
           MatchedPins (RewireStep n k i st) = (MatchedPins st)(Old ! i \<mapsto> Pins (GraphNodes w2 n) ! j)
           \<and> NewPinMatched (RewireStep n k i st) = (NewPinMatched st)[j := True]"
    by (simp add: RewireStep_matched b)
qed

lemma RewireStep_taken:
  assumes ctx: "RewireCtx n w2 Old" and inv: "RewireInv n w2 Old (Suc i) st" and i: "i < length Old"
    and k: "k = length (Pins (GraphNodes w2 n))" and tk: "InvTaken n w2 st"
  shows "InvTaken n w2 (RewireStep n k i st)"
proof (cases "StepSearch n k i st")
  case None
  show ?thesis using tk RewireStep_maps(1) [OF ctx inv i k None] unfolding InvTaken_def by simp
next
  case (Some j)
  note b = Inv_basic [OF ctx inv i]
  note m = RewireStep_maps(2) [OF ctx inv i k Some]
  have len: "length (NewPinMatched st) = length (Pins (GraphNodes w2 n))" by (rule InvD_length [OF inv])
  show ?thesis
    unfolding InvTaken_def
  proof (intro allI impI)
    fix j' assume j': "j' < length (Pins (GraphNodes w2 n))"
      and t: "NewPinMatched (RewireStep n k i st) ! j'"
    show "\<exists>p. MatchedPins (RewireStep n k i st) p = Some (Pins (GraphNodes w2 n) ! j')"
    proof (cases "j' = j")
      case True
      have "MatchedPins (RewireStep n k i st) (Old ! i) = Some (Pins (GraphNodes w2 n) ! j')"
        using m True by simp
      then show ?thesis by blast
    next
      case False
      then have "NewPinMatched st ! j'" using t m by simp
      with tk j' obtain p where p: "MatchedPins st p = Some (Pins (GraphNodes w2 n) ! j')"
        unfolding InvTaken_def by blast
      have "p \<noteq> Old ! i" using p b(5) by auto
      then have "MatchedPins (RewireStep n k i st) p = Some (Pins (GraphNodes w2 n) ! j')"
        using m p by simp
      then show ?thesis by blast
    qed
  qed
qed

lemma StepSearch_finds:
  assumes ctx: "RewireCtx n w2 Old" and inv: "RewireInv n w2 Old (Suc i) st" and i: "i < length Old"
    and k: "k = length (Pins (GraphNodes w2 n))" and tk: "InvTaken n w2 st"
    and uo: "\<forall>p' \<in> set Old. EdPinName (GraphPins w2 p') = EdPinName (GraphPins w2 (Old ! i)) \<longrightarrow> p' = Old ! i"
    and j0: "j0 < length (Pins (GraphNodes w2 n))"
    and nm: "EdPinName (GraphPins w2 (Pins (GraphNodes w2 n) ! j0)) = EdPinName (GraphPins w2 (Old ! i))"
  shows "\<exists>j. StepSearch n k i st = Some j"
proof -
  note b = Inv_basic [OF ctx inv i]
  define New where "New = Pins (GraphNodes w2 n)"
  have free: "\<not> NewPinMatched st ! j0"
  proof
    assume "NewPinMatched st ! j0"
    with tk j0 obtain p' where p': "MatchedPins st p' = Some (New ! j0)"
      unfolding InvTaken_def New_def by blast
    note M = InvD_matched [OF inv p']
    have in_old: "p' \<in> set Old" using M(1) by (meson in_set_dropD)
    have "EdPinName (GraphPins w2 p') = EdPinName (GraphPins w2 (Old ! i))"
      using M(4) nm unfolding New_def by simp
    with uo in_old have "p' = Old ! i" by blast
    with M(1) b(6) show False by blast
  qed
  have k0: "k \<noteq> 0" using j0 k by (cases "Pins (GraphNodes w2 n)") auto
  have lt: "i mod k < length New" unfolding New_def k [symmetric] using k0 by simp
  have "New ! j0 \<in> set (Pins (GraphNodes w2 n))" unfolding New_def using j0 by simp
  from SansLinks_fields [OF InvD_new [OF inv this]]
  have hn: "EdPinName (HeapOf st (New ! j0)) = EdPinName (GraphPins w2 (Old ! i))"
    using nm unfolding New_def by simp
  have kl: "k = length New" unfolding New_def by (rule k)
  have j0n: "j0 < length New" unfolding New_def by (rule j0)
  from SearchNewPin_complete [of j0 New "NewPinMatched st" "HeapOf st"
      "EdPinName (GraphPins w2 (Old ! i))" "i mod k", OF j0n free hn lt]
  obtain j where "SearchNewPin (length New) (i mod k) (NewPinMatched st) New (HeapOf st)
                    (EdPinName (GraphPins w2 (Old ! i))) = Some j" by blast
  then have "StepSearch n k i st = Some j"
    unfolding StepSearch_def b New_def [symmetric] kl [symmetric] using k0 by simp
  then show ?thesis by blast
qed

lemma RewireLoop_match:
  assumes ctx: "RewireCtx n w2 Old" and k: "k = length (Pins (GraphNodes w2 n))"
    and i0: "i0 < length Old"
    and uo: "\<forall>p' \<in> set Old. EdPinName (GraphPins w2 p') = EdPinName (GraphPins w2 (Old ! i0)) \<longrightarrow> p' = Old ! i0"
    and j0: "j0 < length (Pins (GraphNodes w2 n))"
    and nm: "EdPinName (GraphPins w2 (Pins (GraphNodes w2 n) ! j0)) = EdPinName (GraphPins w2 (Old ! i0))"
  shows "c \<le> length Old \<Longrightarrow> RewireInv n w2 Old c st \<Longrightarrow> InvTaken n w2 st \<Longrightarrow>
           i0 < c \<or> MatchedPins st (Old ! i0) \<noteq> None \<Longrightarrow>
           MatchedPins (RewireLoop n k c st) (Old ! i0) \<noteq> None"
proof (induction c arbitrary: st)
  case 0
  then show ?case by simp
next
  case (Suc c)
  have c: "c < length Old" using Suc.prems(1) by simp
  note inv = Suc.prems(2) and tk = Suc.prems(3)
  note b = Inv_basic [OF ctx inv c]
  define st' where "st' = RewireStep n k c st"
  have inv': "RewireInv n w2 Old c st'" unfolding st'_def by (rule RewireStep_inv [OF ctx inv c k])
  have tk': "InvTaken n w2 st'" unfolding st'_def by (rule RewireStep_taken [OF ctx inv c k tk])
  have d: "i0 < c \<or> MatchedPins st' (Old ! i0) \<noteq> None"
  proof (cases "MatchedPins st (Old ! i0) \<noteq> None")
    case True
    then obtain q where q: "MatchedPins st (Old ! i0) = Some q" by blast
    have "Old ! i0 \<in> set (drop (Suc c) Old)" by (rule InvD_matched(1) [OF inv q])
    with b(6) have ne: "Old ! i0 \<noteq> Old ! c" by metis
    have "MatchedPins st' (Old ! i0) = MatchedPins st (Old ! i0)"
    proof (cases "StepSearch n k c st")
      case None
      show ?thesis unfolding st'_def using RewireStep_maps(1) [OF ctx inv c k None] by simp
    next
      case (Some j)
      show ?thesis unfolding st'_def using RewireStep_maps(2) [OF ctx inv c k Some] ne by simp
    qed
    with True show ?thesis by simp
  next
    case False
    with Suc.prems(4) have le: "i0 < Suc c" by blast
    show ?thesis
    proof (cases "i0 = c")
      case True
      from StepSearch_finds [OF ctx inv c k tk uo [unfolded True] j0 nm [unfolded True]]
      obtain j where s: "StepSearch n k c st = Some j" by blast
      have "MatchedPins st' (Old ! i0) \<noteq> None"
        unfolding st'_def True using RewireStep_maps(2) [OF ctx inv c k s] by simp
      then show ?thesis by blast
    next
      case False
      with le show ?thesis by simp
    qed
  qed
  have "c \<le> length Old" using c by simp
  from Suc.IH [OF this inv' tk' d] show ?case unfolding st'_def by simp
qed

lemma Rebuild_matches:
  assumes wf: "PinsWellFormed n w"
    and p: "p \<in> set (Pins (GraphNodes w n))"
    and uo: "\<forall>p' \<in> set (Pins (GraphNodes w n)).
               EdPinName (GraphPins w p') = EdPinName (GraphPins w p) \<longrightarrow> p' = p"
    and nm: "EdPinName (GraphPins w p) \<in> PinName ` set (RequiredPins n w)"
  shows "\<exists>q. RebuildMatchedPins n w p = Some q"
proof -
  define w2 where "w2 = AllocatedWorld n w"
  define Old where "Old = Pins (GraphNodes w n)"
  have ctx: "RewireCtx n w2 Old" unfolding w2_def Old_def by (rule Rebuild_ctx [OF wf])
  from p obtain i0 where i0: "i0 < length Old" and pe: "Old ! i0 = p"
    unfolding Old_def in_set_conv_nth by blast
  from nm obtain x where x: "x \<in> set (RequiredPins n w)" and xn: "PinName x = EdPinName (GraphPins w p)"
    by auto
  from x obtain j0 where j0: "j0 < length (RequiredPins n w)" and xe: "RequiredPins n w ! j0 = x"
    unfolding in_set_conv_nth by blast
  have jn: "PinName (RequiredPins n w ! j0) = EdPinName (GraphPins w p)" unfolding xe by (rule xn)
  have old: "\<And>x. x \<in> set Old \<Longrightarrow> GraphPins w2 x = GraphPins w x"
    unfolding w2_def Old_def using AllocatedWorld_old WF_D(2) [OF wf] by blast
  have New: "Pins (GraphNodes w2 n) = [NextPinRef w ..< NextPinRef w + length (RequiredPins n w)]"
    unfolding w2_def by (rule AllocatedWorld_Pins)
  have j0': "j0 < length (Pins (GraphNodes w2 n))" unfolding New using j0 by simp
  have q0: "Pins (GraphNodes w2 n) ! j0 = NextPinRef w + j0" unfolding New using j0 by simp
  have pin: "p \<in> set Old" unfolding Old_def by (rule p)
  have nm2: "EdPinName (GraphPins w2 (Pins (GraphNodes w2 n) ! j0)) = EdPinName (GraphPins w2 (Old ! i0))"
  proof -
    have a: "GraphPins w2 (NextPinRef w + j0) = MakePin (RequiredDir n w j0) (RequiredPins n w ! j0)"
      unfolding w2_def by (rule AllocatedWorld_new [OF j0])
    show ?thesis unfolding q0 pe old [OF pin] a using jn by simp
  qed
  have uo2: "\<forall>p' \<in> set Old. EdPinName (GraphPins w2 p') = EdPinName (GraphPins w2 (Old ! i0)) \<longrightarrow> p' = Old ! i0"
    unfolding pe using uo old pin unfolding Old_def by simp
  have "MatchedPins (RewireLoop n (length (Pins (GraphNodes w2 n))) (length Old) (RewireInit n Old w2)) (Old ! i0) \<noteq> None"
    by (rule RewireLoop_match [OF ctx refl i0 uo2 j0' nm2 order_refl RewireInit_inv [OF ctx]
          RewireInit_taken]) (simp add: i0)
  then show ?thesis
    unfolding RebuildMatchedPins_def RebuildState_def RewireMatch_def w2_def [symmetric]
      Old_def [symmetric] pe by blast
qed

subsection \<open>Connections of re-declared pins\<close>

lemma RequiredDir_of_name:
  assumes j: "j < length (RequiredPins n w)"
    and nm: "PinName (RequiredPins n w ! j) = name"
    and dir: "d = EGPD_Input \<and> name \<notin> PinName ` set (RequiredOutputs n w)
              \<or> d = EGPD_Output \<and> name \<notin> PinName ` set (RequiredInputs n w)"
  shows "RequiredDir n w j = d"
proof (cases "j < length (RequiredInputs n w)")
  case True
  then have "RequiredPins n w ! j = RequiredInputs n w ! j"
    unfolding RequiredPins_def by (simp add: nth_append)
  then have "name \<in> PinName ` set (RequiredInputs n w)" using nm True by (metis imageI nth_mem)
  with dir have "d = EGPD_Input" by blast
  then show ?thesis unfolding RequiredDir_def using True by simp
next
  case False
  then have lt: "j - length (RequiredInputs n w) < length (RequiredOutputs n w)"
    using j unfolding RequiredPins_def by simp
  have "RequiredPins n w ! j = RequiredOutputs n w ! (j - length (RequiredInputs n w))"
    unfolding RequiredPins_def using False by (simp add: nth_append)
  then have "name \<in> PinName ` set (RequiredOutputs n w)" using nm lt by (metis imageI nth_mem)
  with dir have "d = EGPD_Output" by blast
  then show ?thesis unfolding RequiredDir_def using False by simp
qed

text \<open>
  C2 (amended). Let \<^verbatim>\<open>ReconstructNode\<close> pass the guard on a node with well-formed pins, and
  let \<open>p\<close> be a pin of the node whose name no other pin of the node has, while the node
  instance declares a pin of that name and declares none of that name in the other
  direction. If the call rebuilds the pin array, a freshly allocated pin of the same name
  and the same direction is in the pin sequence after the call and has all the connections
  of \<open>p\<close>, unchanged and in the same order; every pin \<open>p\<close> was connected to is connected to
  the new pin and no longer to \<open>p\<close>. If the call does not rebuild, the pins and their
  connections are as before. The declared pins are those of the instance after the refresh
  of the call, \<open>RequiredPins n (Prepared n w)\<close>.
\<close>

theorem ReconstructNode_preserves_connections:
  assumes wf: "PinsWellFormed n w"
    and g: "\<not> ReconstructGuard n w"
    and p: "p \<in> set (Pins (GraphNodes w n))"
    and uo: "\<forall>p' \<in> set (Pins (GraphNodes w n)).
               EdPinName (GraphPins w p') = EdPinName (GraphPins w p) \<longrightarrow> p' = p"
    and nm: "EdPinName (GraphPins w p) \<in> PinName ` set (RequiredPins n (Prepared n w))"
    and dir: "Direction (GraphPins w p) = EGPD_Input
                \<and> EdPinName (GraphPins w p) \<notin> PinName ` set (RequiredOutputs n (Prepared n w))
              \<or> Direction (GraphPins w p) = EGPD_Output
                \<and> EdPinName (GraphPins w p) \<notin> PinName ` set (RequiredInputs n (Prepared n w))"
  shows "\<exists>w'. ReconstructNode n w = Some w'
     \<and> (if RequiresReconstruction n w
        then \<exists>q \<in> set (Pins (GraphNodes w' n)).
               NextPinRef w \<le> q
               \<and> EdPinName (GraphPins w' q) = EdPinName (GraphPins w p)
               \<and> Direction (GraphPins w' q) = Direction (GraphPins w p)
               \<and> LinkedTo (GraphPins w' q) = LinkedTo (GraphPins w p)
               \<and> (\<forall>t \<in> set (LinkedTo (GraphPins w p)).
                     q \<in> set (LinkedTo (GraphPins w' t)) \<and> p \<notin> set (LinkedTo (GraphPins w' t)))
        else Pins (GraphNodes w' n) = Pins (GraphNodes w n) \<and> GraphPins w' = GraphPins w)"
proof (cases "RequiresReconstruction n w")
  case False
  show ?thesis
    unfolding ReconstructNode_pass [OF g] using False
    by (simp add: Finish_fields Prepared_fields(1,2) [OF g])
next
  case True
  define P where "P = Prepared n w"
  define w' where "w' = Finish n (RebuiltWorld n P)"
  have r: "ReconstructNode n w = Some w'"
    unfolding ReconstructNode_pass [OF g] w'_def P_def using True by simp
  have wfP: "PinsWellFormed n P" unfolding P_def Prepared_fields(5) [OF g] by (rule wf)
  have hp: "GraphPins P = GraphPins w" and pp: "Pins (GraphNodes P n) = Pins (GraphNodes w n)"
    and np: "NextPinRef P = NextPinRef w"
    unfolding P_def by (rule Prepared_fields [OF g])+
  have h': "GraphPins w' = GraphPins (RebuiltWorld n P)"
    and p': "Pins (GraphNodes w' n) = Pins (GraphNodes (RebuiltWorld n P) n)"
    unfolding w'_def by (simp_all add: Finish_fields)
  have pP: "p \<in> set (Pins (GraphNodes P n))" unfolding pp by (rule p)
  have uoP: "\<forall>p' \<in> set (Pins (GraphNodes P n)).
               EdPinName (GraphPins P p') = EdPinName (GraphPins P p) \<longrightarrow> p' = p"
    unfolding pp hp by (rule uo)
  have nmP: "EdPinName (GraphPins P p) \<in> PinName ` set (RequiredPins n P)"
    unfolding hp using nm [folded P_def] .
  from Rebuild_matches [OF wfP pP uoP nmP] obtain q where m: "RebuildMatchedPins n P p = Some q"
    by blast
  note M = Rebuilt_matched [OF wfP m]
  from Rebuilt_matched_fresh [OF wfP m] obtain j where
    j: "j < length (RequiredPins n P)" and qe: "q = NextPinRef P + j"
    and jn: "PinName (RequiredPins n P ! j) = EdPinName (GraphPins P p)" by blast
  have rd: "RequiredDir n P j = Direction (GraphPins w p)"
    by (rule RequiredDir_of_name [OF j jn [unfolded hp] dir [folded P_def]])
  have 1: "q \<in> set (Pins (GraphNodes w' n))" unfolding p' by (rule M(2))
  have 2: "NextPinRef w \<le> q" using M(3) unfolding np .
  have 3: "EdPinName (GraphPins w' q) = EdPinName (GraphPins w p)"
    unfolding h' using M(5) unfolding hp .
  have 4: "Direction (GraphPins w' q) = Direction (GraphPins w p)"
    unfolding h' qe Rebuilt_new(3) [OF wfP j] by (rule rd)
  have 5: "LinkedTo (GraphPins w' q) = LinkedTo (GraphPins w p)"
    unfolding h' using M(4) unfolding hp .
  have 6: "\<forall>t \<in> set (LinkedTo (GraphPins w p)).
           q \<in> set (LinkedTo (GraphPins w' t)) \<and> p \<notin> set (LinkedTo (GraphPins w' t))"
    unfolding h' using M(6,8) unfolding hp by blast
  from r 1 2 3 4 5 6 True show ?thesis by auto
qed

theorem ReconstructNode_preserves_connections_witness:
  "PinsWellFormed 0 BranchWorld \<and> \<not> ReconstructGuard 0 BranchWorld
   \<and> RequiresReconstruction 0 BranchWorld
   \<and> 1 \<in> set (Pins (GraphNodes BranchWorld 0))
   \<and> EdPinName (GraphPins BranchWorld 1) = ''Out''
   \<and> Direction (GraphPins BranchWorld 1) = EGPD_Output
   \<and> LinkedTo (GraphPins BranchWorld 1) = [10]
   \<and> (\<exists>w' q. ReconstructNode 0 BranchWorld = Some w'
            \<and> q \<in> set (Pins (GraphNodes w' 0)) \<and> 20 \<le> q
            \<and> EdPinName (GraphPins w' q) = ''Out''
            \<and> Direction (GraphPins w' q) = EGPD_Output
            \<and> LinkedTo (GraphPins w' q) = [10]
            \<and> q \<in> set (LinkedTo (GraphPins w' 10)) \<and> 1 \<notin> set (LinkedTo (GraphPins w' 10)))"
proof -
  have wf: "PinsWellFormed 0 BranchWorld"
    by (simp add: PinsWellFormed_def BranchWorld_def ExWorld_def ExNode_def BranchPins_def ExPin_def)
  have g: "\<not> ReconstructGuard 0 BranchWorld"
    by (simp add: ReconstructGuard_def BranchWorld_def ExWorld_def ExNode_def ExGraph_def
        ExInstance_def IsValidInstance_def IsValidGraph_def)
  have req: "RequiresReconstruction 0 BranchWorld"
    by code_simp
  have p: "1 \<in> set (Pins (GraphNodes BranchWorld 0))"
    by (simp add: BranchWorld_def ExWorld_def ExNode_def)
  have f: "EdPinName (GraphPins BranchWorld 1) = ''Out''"
    "Direction (GraphPins BranchWorld 1) = EGPD_Output"
    "LinkedTo (GraphPins BranchWorld 1) = [10]"
    "NextPinRef BranchWorld = 20"
    by (simp_all add: BranchWorld_def ExWorld_def BranchPins_def ExPin_def NewEdGraphPin_def)
  have uo: "\<forall>p' \<in> set (Pins (GraphNodes BranchWorld 0)).
               EdPinName (GraphPins BranchWorld p') = EdPinName (GraphPins BranchWorld 1) \<longrightarrow> p' = 1"
    by (simp add: BranchWorld_def ExWorld_def ExNode_def BranchPins_def ExPin_def NewEdGraphPin_def)
  have ri: "RequiredInputs 0 (Prepared 0 BranchWorld) = [ExFlowPin ''In'']"
    by code_simp
  have ro: "RequiredOutputs 0 (Prepared 0 BranchWorld) = [ExFlowPin ''Out'', ExFlowPin ''True'']"
    by code_simp
  have nm: "EdPinName (GraphPins BranchWorld 1) \<in> PinName ` set (RequiredPins 0 (Prepared 0 BranchWorld))"
    unfolding RequiredPins_def ri ro f by (simp add: ExFlowPin_def)
  have dir: "Direction (GraphPins BranchWorld 1) = EGPD_Input
                \<and> EdPinName (GraphPins BranchWorld 1) \<notin> PinName ` set (RequiredOutputs 0 (Prepared 0 BranchWorld))
              \<or> Direction (GraphPins BranchWorld 1) = EGPD_Output
                \<and> EdPinName (GraphPins BranchWorld 1) \<notin> PinName ` set (RequiredInputs 0 (Prepared 0 BranchWorld))"
    unfolding ri ro f by (simp add: ExFlowPin_def)
  from ReconstructNode_preserves_connections [OF wf g p uo nm dir] req
  obtain w' q where "ReconstructNode 0 BranchWorld = Some w'" "q \<in> set (Pins (GraphNodes w' 0))"
    "NextPinRef BranchWorld \<le> q"
    "EdPinName (GraphPins w' q) = EdPinName (GraphPins BranchWorld 1)"
    "Direction (GraphPins w' q) = Direction (GraphPins BranchWorld 1)"
    "LinkedTo (GraphPins w' q) = LinkedTo (GraphPins BranchWorld 1)"
    "\<forall>t \<in> set (LinkedTo (GraphPins BranchWorld 1)).
        q \<in> set (LinkedTo (GraphPins w' t)) \<and> 1 \<notin> set (LinkedTo (GraphPins w' t))"
    by auto
  with wf g req p f show ?thesis by auto
qed

text \<open>
  C2 as stated fails. In \<open>CrossWorld\<close> the node has the input pins \<open>X\<close> and \<open>A\<close> and the
  output pin \<open>A\<close>, and its instance declares the input \<open>A\<close> and the output \<open>A\<close>. The input
  pin \<open>A\<close> exists before (pin \<open>1\<close>, connected to pin \<open>10\<close>) and after (pin \<open>20\<close>) the call,
  but pin \<open>20\<close> carries the connection of the old output pin. In \<open>TwinWorld\<close> two input pins
  are named \<open>A\<close> and the instance declares one input \<open>A\<close>: the new pin \<open>20\<close> carries the
  connection of pin \<open>1\<close>, and that of pin \<open>0\<close> stays on the old pin, now orphaned.
\<close>

theorem ReconstructNode_name_clash:
  "EdPinName (GraphPins CrossWorld 1) = ''A'' \<and> Direction (GraphPins CrossWorld 1) = EGPD_Input
   \<and> LinkedTo (GraphPins CrossWorld 1) = [10]
   \<and> ReconstructNode 0 CrossWorld \<noteq> None
   \<and> Pins (GraphNodes (the (ReconstructNode 0 CrossWorld)) 0) = [20, 21]
   \<and> EdPinName (GraphPins (the (ReconstructNode 0 CrossWorld)) 20) = ''A''
   \<and> Direction (GraphPins (the (ReconstructNode 0 CrossWorld)) 20) = EGPD_Input
   \<and> Direction (GraphPins (the (ReconstructNode 0 CrossWorld)) 21) = EGPD_Output
   \<and> LinkedTo (GraphPins (the (ReconstructNode 0 CrossWorld)) 20) = [11]
   \<and> LinkedTo (GraphPins (the (ReconstructNode 0 CrossWorld)) 21) = [10]
   \<and> EdPinName (GraphPins TwinWorld 0) = ''A'' \<and> Direction (GraphPins TwinWorld 0) = EGPD_Input
   \<and> LinkedTo (GraphPins TwinWorld 0) = [10]
   \<and> ReconstructNode 0 TwinWorld \<noteq> None
   \<and> Pins (GraphNodes (the (ReconstructNode 0 TwinWorld)) 0) = [20, 0]
   \<and> EdPinName (GraphPins (the (ReconstructNode 0 TwinWorld)) 20) = ''A''
   \<and> Direction (GraphPins (the (ReconstructNode 0 TwinWorld)) 20) = EGPD_Input
   \<and> LinkedTo (GraphPins (the (ReconstructNode 0 TwinWorld)) 20) = [11]
   \<and> bOrphanedPin (GraphPins (the (ReconstructNode 0 TwinWorld)) 0)"
  by code_simp

subsection \<open>The mirror rebuild returns\<close>

lemma LogError_total:
  "OwnerGraph (GraphNodes w n) \<noteq> None \<Longrightarrow> \<exists>w1. LogError msg n w = Some w1"
  unfolding LogError_def GetFlowAsset_def GetFlowGraph_def by auto

lemma MirrorSubNodes_total:
  "OwnerGraph (GraphNodes w n) \<noteq> None \<Longrightarrow> \<exists>w'. MirrorSubNodes n i subs w = Some w'"
proof (induction subs arbitrary: w)
  case Nil
  show ?case by simp
next
  case (Cons s rest)
  have keep: "\<And>w1. Skeleton w w1 \<Longrightarrow> \<exists>w'. MirrorSubNodes n i rest w1 = Some w'"
  proof -
    fix w1 assume "Skeleton w w1"
    then have "OwnerGraph (GraphNodes w1 n) = OwnerGraph (GraphNodes w n)"
      unfolding Skeleton_def by blast
    with Cons.prems have "OwnerGraph (GraphNodes w1 n) \<noteq> None" by simp
    from Cons.IH [OF this] show "\<exists>w'. MirrorSubNodes n i rest w1 = Some w'" .
  qed
  have logged: "\<And>msg. \<exists>w1. LogError msg n w = Some w1 \<and> Skeleton w w1"
  proof -
    fix msg
    from LogError_total [OF Cons.prems] obtain w1 where l: "LogError msg n w = Some w1" by blast
    from LogError_Some [OF l] have "Skeleton w w1"
      using Skeleton_Trace(1) Skeleton_refl by (auto split: if_splits)
    with l show "\<exists>w1. LogError msg n w = Some w1 \<and> Skeleton w w1" by blast
  qed
  show ?case
  proof (cases "IsValidNode w s")
    case False
    from logged obtain w1 where
      l: "LogError (NodeName (GraphNodes w n) @ '': Has unexpectedly null SubNode'') n w = Some w1"
      and sk: "Skeleton w w1" by blast
    from keep [OF sk] show ?thesis using False l by simp
  next
    case True
    define A where "A = Cast_UFlowNodeAddOn w (NodeInstance (GraphNodes w (the s)))"
    show ?thesis
    proof (cases "IsValidInstance w A")
      case False
      from logged obtain w1 where
        l: "LogError (NodeName (GraphNodes w n) @ '': SubNode is missing an AddOn NodeInstance'') n w = Some w1"
        and sk: "Skeleton w w1" by blast
      from keep [OF sk] show ?thesis using True False l unfolding A_def by (simp add: Let_def)
    next
      case v: True
      define w1 where "w1 = SetInst i ((NodeInstances w i)\<lparr>AddOns := AddUnique (the A) (AddOns (NodeInstances w i))\<rparr>) w"
      have sk: "Skeleton w w1" unfolding w1_def by (rule Skeleton_SetInst; simp)
      from keep [OF sk] show ?thesis
        using True v unfolding A_def [symmetric] w1_def SetInst_def
        by (simp add: Let_def A_def [symmetric])
    qed
  qed
qed

lemma MirrorAddOns_total:
  "OwnerGraph (GraphNodes w n) \<noteq> None \<Longrightarrow> \<exists>w'. MirrorAddOns n w = Some w'"
proof -
  assume g: "OwnerGraph (GraphNodes w n) \<noteq> None"
  show ?thesis
  proof (cases "IsValidInstance w (NodeInstance (GraphNodes w n))")
    case False
    then show ?thesis by (simp add: MirrorAddOns_def Let_def)
  next
    case True
    define i where "i = the (NodeInstance (GraphNodes w n))"
    define w1 where "w1 = w\<lparr>NodeInstances := (NodeInstances w)(i := (NodeInstances w i)\<lparr>AddOns := []\<rparr>)\<rparr>"
    have "OwnerGraph (GraphNodes w1 n) \<noteq> None" unfolding w1_def using g by simp
    from MirrorSubNodes_total [OF this, of i "SubNodes (GraphNodes w n)"]
    show ?thesis using True unfolding MirrorAddOns_def Let_def i_def w1_def by simp
  qed
qed

lemma ReconstructNode_total:
  "IsValidInstance w (NodeInstance (GraphNodes w n)) \<Longrightarrow> \<exists>w'. ReconstructNode n w = Some w'"
proof -
  assume v: "IsValidInstance w (NodeInstance (GraphNodes w n))"
  then have na: "\<not> GuardAborts n w" by (simp add: GuardAborts_def)
  show ?thesis
  proof (cases "ReconstructGuard n w")
    case True
    show ?thesis unfolding ReconstructNode_guarded [OF True na] by simp
  next
    case False
    show ?thesis unfolding ReconstructNode_pass [OF False] by simp
  qed
qed

lemma Rebuild_skeleton:
  assumes K: "UpdaterKeeps w0"
  shows "RebuildRuntimeAddOnsFromEditorSubNodes d m w = Some w' \<Longrightarrow> Skeleton w0 w \<Longrightarrow> Skeleton w w'"
proof (induction d arbitrary: m w w')
  case 0
  then show ?case by simp
next
  case (Suc d)
  from Rebuild_unfold [OF Suc.prems(1)] obtain w1 w2 where
    m1: "MirrorAddOns m w = Some w1"
    and fe: "ForEachValidSubNode (RebuildRuntimeAddOnsFromEditorSubNodes d) (SubNodes (GraphNodes w1 m)) w1 = Some w2"
    and fin: "w' = w2 \<or> ReconstructNode m w2 = Some w'"
    by blast
  note sk0 = Suc.prems(2)
  have s1: "Skeleton w w1" by (rule MirrorAddOns_post(1) [OF m1])
  have s01: "Skeleton w0 w1" by (rule Skeleton_trans [OF sk0 s1])
  have s2: "Skeleton w1 w2"
  proof (rule ForEachValidSubNode_skeleton [of "RebuildRuntimeAddOnsFromEditorSubNodes d" w0, OF _ fe s01])
    fix s a b
    assume "RebuildRuntimeAddOnsFromEditorSubNodes d s a = Some b" and "Skeleton w0 a"
    then show "Skeleton a b" by (rule Suc.IH)
  qed
  have s02: "Skeleton w0 w2" by (rule Skeleton_trans [OF s01 s2])
  have s3: "Skeleton w2 w'"
  proof (cases "w' = w2")
    case True
    then show ?thesis by (simp add: Skeleton_refl)
  next
    case False
    with fin have r: "ReconstructNode m w2 = Some w'" by blast
    have k2: "UpdaterKeeps w2" unfolding UpdaterKeeps_Skeleton [OF s02] by (rule K)
    from ReconstructNode_skeleton(1) [OF k2 r] show ?thesis .
  qed
  show ?case by (rule Skeleton_trans [OF Skeleton_trans [OF s1 s2] s3])
qed

lemma ForEachValidSubNode_total:
  assumes step: "\<And>s a. Some s \<in> set subs \<Longrightarrow> IsValidNode w0 (Some s) \<Longrightarrow> Skeleton w0 a \<Longrightarrow>
                   \<exists>b. f s a = Some b \<and> Skeleton a b"
  shows "Skeleton w0 w \<Longrightarrow> \<exists>w'. ForEachValidSubNode f subs w = Some w'"
  using step
proof (induction subs arbitrary: w)
  case Nil
  show ?case by simp
next
  case (Cons s rest)
  have stepr: "\<And>s' a. Some s' \<in> set rest \<Longrightarrow> IsValidNode w0 (Some s') \<Longrightarrow> Skeleton w0 a \<Longrightarrow>
                   \<exists>b. f s' a = Some b \<and> Skeleton a b"
    using Cons.prems(2) by simp
  show ?case
  proof (cases "IsValidNode w s")
    case False
    from Cons.IH [OF Cons.prems(1) stepr] show ?thesis using False by simp
  next
    case True
    then obtain x where x: "s = Some x" unfolding IsValidNode_def by (cases s) auto
    have v0: "IsValidNode w0 (Some x)"
      using True unfolding x Skeleton_valid(2) [OF Cons.prems(1)] .
    have "Some x \<in> set (s # rest)" unfolding x by simp
    from Cons.prems(2) [OF this v0 Cons.prems(1)] obtain b where
      b: "f x w = Some b" and sk: "Skeleton w b" by blast
    from Cons.IH [OF Skeleton_trans [OF Cons.prems(1) sk] stepr]
    show ?thesis using True b unfolding x by simp
  qed
qed

lemma Rebuild_total:
  assumes K: "UpdaterKeeps w0" and G: "OnGraphs w0" and R: "SubNodesRanked w0 rank"
  shows "rank m < d \<Longrightarrow> Skeleton w0 w \<Longrightarrow>
           \<exists>w'. RebuildRuntimeAddOnsFromEditorSubNodes d m w = Some w'"
proof (induction d arbitrary: m w)
  case 0
  then show ?case by simp
next
  case (Suc d)
  note sk0 = Suc.prems(2)
  have og: "OwnerGraph (GraphNodes w m) \<noteq> None"
    using G sk0 unfolding OnGraphs_def Skeleton_def by simp
  from MirrorAddOns_total [OF og] obtain w1 where m1: "MirrorAddOns m w = Some w1" by blast
  have s1: "Skeleton w w1" by (rule MirrorAddOns_post(1) [OF m1])
  have s01: "Skeleton w0 w1" by (rule Skeleton_trans [OF sk0 s1])
  have subs: "SubNodes (GraphNodes w1 m) = SubNodes (GraphNodes w0 m)"
    using s01 unfolding Skeleton_def by blast
  have "\<exists>w2. ForEachValidSubNode (RebuildRuntimeAddOnsFromEditorSubNodes d) (SubNodes (GraphNodes w1 m)) w1 = Some w2"
  proof (rule ForEachValidSubNode_total [of _ w0, OF _ s01])
    fix s a
    assume s: "Some s \<in> set (SubNodes (GraphNodes w1 m))" and v: "IsValidNode w0 (Some s)"
      and a: "Skeleton w0 a"
    have "rank s < rank m" using R s v unfolding SubNodesRanked_def subs IsValidNode_def by simp
    with Suc.prems(1) have "rank s < d" by simp
    from Suc.IH [OF this a] obtain b where b: "RebuildRuntimeAddOnsFromEditorSubNodes d s a = Some b"
      by blast
    from Rebuild_skeleton [OF K b a] b
    show "\<exists>b. RebuildRuntimeAddOnsFromEditorSubNodes d s a = Some b \<and> Skeleton a b" by blast
  qed
  then obtain w2 where
    fe: "ForEachValidSubNode (RebuildRuntimeAddOnsFromEditorSubNodes d) (SubNodes (GraphNodes w1 m)) w1 = Some w2"
    by blast
  show ?case
  proof (cases "IsValidInstance w2 (NodeInstance (GraphNodes w2 m))
                \<and> InstanceClass (NodeInstances w2 (the (NodeInstance (GraphNodes w2 m)))) = UFlowNode_Class")
    case True
    then have "IsValidInstance w2 (NodeInstance (GraphNodes w2 m))" by blast
    from ReconstructNode_total [OF this] obtain w' where "ReconstructNode m w2 = Some w'" by blast
    then show ?thesis using m1 fe True by (simp add: Let_def)
  next
    case False
    then show ?thesis using m1 fe by (auto simp: Let_def)
  qed
qed

subsection \<open>The add-on list in terms of the sub-nodes\<close>

lemma remdups_map_inj_on:
  "inj_on f (set xs) \<Longrightarrow> remdups (map f xs) = map f (remdups xs)"
proof (induction xs)
  case Nil
  show ?case by simp
next
  case (Cons x xs)
  have i: "inj_on f (set xs)" using Cons.prems by (simp add: inj_on_def)
  have m: "f x \<in> f ` set xs \<longleftrightarrow> x \<in> set xs"
    using Cons.prems by (auto simp: inj_on_def)
  show ?case using Cons.IH [OF i] m by simp
qed

lemma FirstOccurrences_map:
  "inj_on f (set xs) \<Longrightarrow> FirstOccurrences (map f xs) = map f (FirstOccurrences xs)"
proof -
  assume "inj_on f (set xs)"
  then have "inj_on f (set (rev xs))" by simp
  from remdups_map_inj_on [OF this] show ?thesis
    unfolding FirstOccurrences_def by (simp add: rev_map)
qed

lemma FirstOccurrences_props:
  shows "distinct (FirstOccurrences xs)" and "set (FirstOccurrences xs) = set xs"
    and "length (FirstOccurrences xs) = card (set xs)"
proof -
  show d: "distinct (FirstOccurrences xs)" unfolding FirstOccurrences_def by simp
  show s: "set (FirstOccurrences xs) = set xs" unfolding FirstOccurrences_def by simp
  show "length (FirstOccurrences xs) = card (set xs)"
    using distinct_card [OF d] unfolding s by simp
qed

lemma SubNodeAddOn_Some:
  assumes "SubNodeAddOn w S \<noteq> None"
  shows "\<exists>s j. S = Some s \<and> NodeInstance (GraphNodes w s) = Some j \<and> SubNodeAddOn w S = Some j"
proof -
  from assms have v: "IsValidNode w S" unfolding SubNodeAddOn_def by (auto split: if_splits)
  then obtain s where s: "S = Some s" unfolding IsValidNode_def by (cases S) auto
  from assms obtain j where j: "SubNodeAddOn w S = Some j" by blast
  then have "Cast_UFlowNodeAddOn w (NodeInstance (GraphNodes w s)) = Some j"
    using v unfolding SubNodeAddOn_def s by (auto simp: Let_def split: if_splits)
  then have "NodeInstance (GraphNodes w s) = Some j"
    unfolding Cast_UFlowNodeAddOn_def by (auto split: option.splits if_splits)
  with s j show ?thesis by blast
qed

lemma ValidAddOns_sub:
  "ValidAddOns w n = map (\<lambda>s. the (NodeInstance (GraphNodes w s))) (ValidSubNodes w n)"
proof -
  have "\<And>S. S \<in> set (filter (\<lambda>S. SubNodeAddOn w S \<noteq> None) (SubNodes (GraphNodes w n))) \<Longrightarrow>
          the (SubNodeAddOn w S) = the (NodeInstance (GraphNodes w (the S)))"
  proof -
    fix S assume "S \<in> set (filter (\<lambda>S. SubNodeAddOn w S \<noteq> None) (SubNodes (GraphNodes w n)))"
    then have "SubNodeAddOn w S \<noteq> None" by simp
    from SubNodeAddOn_Some [OF this] show "the (SubNodeAddOn w S) = the (NodeInstance (GraphNodes w (the S)))"
      by auto
  qed
  then show ?thesis
    unfolding ValidAddOns_def ValidSubNodes_def List.map_filter_def by (simp add: comp_def)
qed

lemma ValidSubNodes_inj:
  assumes o: "InstancesOwned w"
  shows "inj_on (\<lambda>s. the (NodeInstance (GraphNodes w s))) (set (ValidSubNodes w n))"
proof (rule inj_onI)
  fix a b
  assume a: "a \<in> set (ValidSubNodes w n)" and b: "b \<in> set (ValidSubNodes w n)"
    and e: "the (NodeInstance (GraphNodes w a)) = the (NodeInstance (GraphNodes w b))"
  have inst: "\<And>x. x \<in> set (ValidSubNodes w n) \<Longrightarrow> \<exists>j. NodeInstance (GraphNodes w x) = Some j"
  proof -
    fix x assume "x \<in> set (ValidSubNodes w n)"
    then obtain S where S: "SubNodeAddOn w S \<noteq> None" and x: "x = the S"
      unfolding ValidSubNodes_def by auto
    from SubNodeAddOn_Some [OF S] show "\<exists>j. NodeInstance (GraphNodes w x) = Some j"
      unfolding x by auto
  qed
  from inst [OF a] inst [OF b] e obtain j where
    "NodeInstance (GraphNodes w a) = Some j" "NodeInstance (GraphNodes w b) = Some j" by auto
  with o show "a = b" unfolding InstancesOwned_def by blast
qed

text \<open>
  C7 (amended). Let every graph node lie on a graph, let every node instance belong to one
  graph node, let the data-pin update leave the add-on lists alone, and let the sub-nodes
  form a hierarchy (a rank falls from a node to its valid sub-nodes). Called on a node with
  a valid node instance, with a depth bound above the rank of the node,
  \<^verbatim>\<open>RebuildRuntimeAddOnsFromEditorSubNodes\<close> returns, and the add-on list of the instance
  holds one entry for each sub-node whose node instance is a valid add-on: the instances
  of these sub-nodes in the order of the sub-node sequence, each sub-node at the place of
  its first occurrence, without duplicates, so that the length of the list is the number
  of these sub-nodes. A sub-node that is invalid or has no valid add-on instance is
  skipped and the rebuild goes on; its diagnostic is logged when the graph has a Flow
  asset, and not otherwise.
\<close>

theorem RebuildRuntimeAddOns_mirror:
  assumes inst: "NodeInstance (GraphNodes w n) = Some i"
    and valid: "IsValidInstance w (Some i)"
    and owned: "InstancesOwned w"
    and keeps: "UpdaterKeeps w"
    and graphs: "OnGraphs w"
    and ranked: "SubNodesRanked w rank"
    and depth: "rank n < depth"
  shows "\<exists>w'. RebuildRuntimeAddOnsFromEditorSubNodes depth n w = Some w'
     \<and> AddOns (NodeInstances w' i) =
         map (\<lambda>s. the (NodeInstance (GraphNodes w s))) (FirstOccurrences (ValidSubNodes w n))
     \<and> distinct (AddOns (NodeInstances w' i))
     \<and> length (AddOns (NodeInstances w' i)) = card (set (ValidSubNodes w n))
     \<and> (\<exists>rest. Trace w' = Trace w @ MirrorDiagnostics n w @ rest)"
proof -
  from Rebuild_total [OF keeps graphs ranked depth Skeleton_refl] obtain w' where
    run: "RebuildRuntimeAddOnsFromEditorSubNodes depth n w = Some w'" by blast
  have own: "\<forall>m. NodeInstance (GraphNodes w m) = Some i \<longrightarrow> m = n"
    using owned inst unfolding InstancesOwned_def by blast
  from Rebuild_post [OF keeps own inst valid run Skeleton_refl]
  have a0: "AddOns (NodeInstances w' i) = FirstOccurrences (ValidAddOns w n)"
    unfolding FirstOccurrences_def by blast
  have a: "AddOns (NodeInstances w' i) =
         map (\<lambda>s. the (NodeInstance (GraphNodes w s))) (FirstOccurrences (ValidSubNodes w n))"
    unfolding a0 ValidAddOns_sub by (rule FirstOccurrences_map [OF ValidSubNodes_inj [OF owned]])
  have d: "distinct (AddOns (NodeInstances w' i))" unfolding a0 by (rule FirstOccurrences_props(1))
  have l: "length (AddOns (NodeInstances w' i)) = card (set (ValidSubNodes w n))"
    unfolding a by (simp add: FirstOccurrences_props(3))
  obtain d' where dep: "depth = Suc d'" using run by (cases depth) auto
  from Rebuild_unfold [OF run [unfolded dep]] obtain w1 w2 where
    m1: "MirrorAddOns n w = Some w1"
    and fe: "ForEachValidSubNode (RebuildRuntimeAddOnsFromEditorSubNodes d') (SubNodes (GraphNodes w1 n)) w1 = Some w2"
    and fin: "w' = w2 \<or> ReconstructNode n w2 = Some w'"
    by blast
  have v: "IsValidInstance w (NodeInstance (GraphNodes w n))" unfolding inst by (rule valid)
  from MirrorAddOns_post(3) [OF m1 v inst]
  have t1: "Trace w1 = Trace w @ MirrorDiagnostics n w" by blast
  have s1: "Skeleton w w1" by (rule MirrorAddOns_post(1) [OF m1])
  have s2: "Skeleton w1 w2"
  proof (rule ForEachValidSubNode_skeleton [of "RebuildRuntimeAddOnsFromEditorSubNodes d'" w, OF _ fe s1])
    fix s a b
    assume "RebuildRuntimeAddOnsFromEditorSubNodes d' s a = Some b" and "Skeleton w a"
    then show "Skeleton a b" by (rule Rebuild_skeleton [OF keeps])
  qed
  have s3: "Skeleton w2 w'"
  proof (cases "w' = w2")
    case True
    then show ?thesis by (simp add: Skeleton_refl)
  next
    case False
    with fin have r: "ReconstructNode n w2 = Some w'" by blast
    have k2: "UpdaterKeeps w2"
      unfolding UpdaterKeeps_Skeleton [OF Skeleton_trans [OF s1 s2]] by (rule keeps)
    from ReconstructNode_skeleton(1) [OF k2 r] show ?thesis .
  qed
  from Skeleton_trans [OF s2 s3] obtain ev where "Trace w' = Trace w1 @ ev"
    unfolding Skeleton_def by blast
  then have t: "\<exists>rest. Trace w' = Trace w @ MirrorDiagnostics n w @ rest" unfolding t1 by simp
  from run a d l t show ?thesis by blast
qed

theorem RebuildRuntimeAddOns_mirror_witness:
  "NodeInstance (GraphNodes MirrorWorld 0) = Some 0
   \<and> IsValidInstance MirrorWorld (Some 0)
   \<and> InstancesOwned MirrorWorld \<and> UpdaterKeeps MirrorWorld \<and> OnGraphs MirrorWorld
   \<and> SubNodesRanked MirrorWorld (\<lambda>m. if m = 0 then 1 else 0)
   \<and> SubNodes (GraphNodes MirrorWorld 0) = [Some 1, None, Some 2, Some 1]
   \<and> ValidSubNodes MirrorWorld 0 = [1, 2, 1]
   \<and> (\<exists>w'. RebuildRuntimeAddOnsFromEditorSubNodes 2 0 MirrorWorld = Some w'
            \<and> AddOns (NodeInstances w' 0) = [1, 2])"
proof -
  have i: "NodeInstance (GraphNodes MirrorWorld 0) = Some 0"
    by (simp add: MirrorWorld_def ExWorld_def MirrorNodes_def ExNode_def)
  have v: "IsValidInstance MirrorWorld (Some 0)"
    by (simp add: IsValidInstance_def MirrorWorld_def ExWorld_def ChainInstances_def ExInstance_def)
  have o: "InstancesOwned MirrorWorld"
    by (simp add: InstancesOwned_def MirrorWorld_def ExWorld_def MirrorNodes_def ExNode_def)
  have k: "UpdaterKeeps MirrorWorld"
    by (simp add: UpdaterKeeps_def MirrorWorld_def ExWorld_def)
  have g: "OnGraphs MirrorWorld"
    by (simp add: OnGraphs_def MirrorWorld_def ExWorld_def MirrorNodes_def ExNode_def)
  have r: "SubNodesRanked MirrorWorld (\<lambda>m. if m = 0 then 1 else 0)"
    by (auto simp: SubNodesRanked_def MirrorWorld_def ExWorld_def MirrorNodes_def ExNode_def)
  have s: "SubNodes (GraphNodes MirrorWorld 0) = [Some 1, None, Some 2, Some 1]"
    by (simp add: MirrorWorld_def ExWorld_def MirrorNodes_def)
  have vs: "ValidSubNodes MirrorWorld 0 = [1, 2, 1]"
    by code_simp
  have ni: "\<And>s. s \<noteq> 0 \<Longrightarrow> the (NodeInstance (GraphNodes MirrorWorld s)) = s"
    by (simp add: MirrorWorld_def ExWorld_def MirrorNodes_def ExNode_def)
  have d: "(if (0::nat) = 0 then (1::nat) else 0) < 2" by simp
  from RebuildRuntimeAddOns_mirror [OF i v o k g r d]
  obtain w' where run: "RebuildRuntimeAddOnsFromEditorSubNodes 2 0 MirrorWorld = Some w'"
    and a: "AddOns (NodeInstances w' 0) =
         map (\<lambda>s. the (NodeInstance (GraphNodes MirrorWorld s))) (FirstOccurrences (ValidSubNodes MirrorWorld 0))"
    by blast
  have "AddOns (NodeInstances w' 0) = [1, 2]"
    unfolding a vs by (simp add: FirstOccurrences_def ni)
  with i v o k g r s vs run show ?thesis by blast
qed

text \<open>
  C7 as stated fails: in \<open>SilentWorld\<close> the graph has no Flow asset. The second entry of the
  sub-node sequence of node \<open>0\<close> is invalid; it is skipped and the rebuild returns, but no
  diagnostic is logged: the one event of the call is the completion of the reconstruction
  of node \<open>0\<close>.
\<close>

theorem RebuildRuntimeAddOns_silent_skip:
  "SubNodes (GraphNodes SilentWorld 0) = [Some 1, None, Some 2, Some 1]
   \<and> \<not> IsValidNode SilentWorld None
   \<and> Trace SilentWorld = []
   \<and> RebuildRuntimeAddOnsFromEditorSubNodes 2 0 SilentWorld \<noteq> None
   \<and> AddOns (NodeInstances (the (RebuildRuntimeAddOnsFromEditorSubNodes 2 0 SilentWorld)) 0) = [1, 2]
   \<and> Trace (the (RebuildRuntimeAddOnsFromEditorSubNodes 2 0 SilentWorld)) = [ReconstructNodeCompleted 0]"
  by code_simp

end
